theory Spec2Isabelle
  imports Complex_Main "HOL-Library.Word" "HOL-Library.Finite_Map" "HOL-Library.Multiset"
    "HOL-Library.Sublist"
begin

section \<open>Fragmenter and reassembler (services/streaming.ts, class StreamChannel)\<close>

text \<open>
  JavaScript numbers are IEEE doubles. The fragmenter computes with integers only, and on
  integers up to \<open>MAX_SAFE_INTEGER = 2^53 - 1\<close> the arithmetic of the source is exact;
  there it is the arithmetic of \<open>int\<close>, which the model uses. Above that bound a
  product or a sum is rounded in the source and the model no longer describes it, so every
  property of the tags of a frame is stated for a \<open>valid_frameNumber\<close>: one whose largest
  possible tag, \<open>frameNumber * 10000 + 9999\<close>, is at most \<open>MAX_SAFE_INTEGER\<close>.
  \<open>Math.floor(a / b)\<close> is \<open>div\<close> on \<open>int\<close> (which rounds down); the remainder
  operator \<open>%\<close> takes the sign of the dividend and is written out as \<open>js_rem\<close>.
  A \<open>Uint8Array\<close> is a list of bytes.
\<close>

type_synonym byte = "8 word"
type_synonym bytes = "byte list"

definition MAX_CHUNK_SIZE :: nat where
  "MAX_CHUNK_SIZE = 55 * 1024"

definition js_rem :: "int \<Rightarrow> int \<Rightarrow> int" where
  "js_rem a b = sgn a * (\<bar>a\<bar> mod \<bar>b\<bar>)"

definition ceil_div :: "nat \<Rightarrow> nat \<Rightarrow> nat" where
  \<comment> \<open>\<open>Math.ceil(a / b)\<close> for a length \<open>a\<close> and a positive \<open>b\<close>\<close>
  "ceil_div a b = (a + b - 1) div b"

subsection \<open>Send path: \<open>broadcastChunk\<close>\<close>

text \<open>
  A call of \<open>channel.sender.broadcast_chunk(data, seq)\<close> is recorded as the pair
  \<open>(data, seq)\<close>; \<open>broadcastChunk\<close> returns the calls it makes, in order. The transport
  is taken to accept every send.
\<close>

type_synonym wire_chunk = "bytes \<times> int"

definition single_seq :: "int \<Rightarrow> int" where
  \<comment> \<open>\<open>const seq = sequence * 10000\<close>, as the source computes it up to \<open>MAX_SAFE_INTEGER\<close>\<close>
  "single_seq sequence = sequence * 10000"

definition part_seq :: "int \<Rightarrow> nat \<Rightarrow> nat \<Rightarrow> int" where
  \<comment> \<open>\<open>const seq = sequence * 10000 + i + (totalParts * 100)\<close>, as the source computes it
      up to \<open>MAX_SAFE_INTEGER\<close>\<close>
  "part_seq sequence i totalParts = sequence * 10000 + int i + int totalParts * 100"

definition slice :: "bytes \<Rightarrow> nat \<Rightarrow> nat \<Rightarrow> bytes" where
  \<comment> \<open>\<open>data.slice(start, end)\<close> for \<open>0 \<le> start\<close>, \<open>0 \<le> end\<close>\<close>
  "slice data start end' = take (end' - start) (drop start data)"

function broadcast_parts :: "bytes \<Rightarrow> int \<Rightarrow> nat \<Rightarrow> nat \<Rightarrow> wire_chunk list" where
  "broadcast_parts data sequence totalParts i =
     (if i < totalParts then
        (let start = i * MAX_CHUNK_SIZE;
             end' = min (start + MAX_CHUNK_SIZE) (length data);
             chunk = slice data start end';
             seq = part_seq sequence i totalParts
         in (chunk, seq) # broadcast_parts data sequence totalParts (i + 1))
      else [])"
  by pat_completeness auto
termination
  by (relation "measure (\<lambda>(data, sequence, totalParts, i). totalParts - i)") auto

declare broadcast_parts.simps [simp del]

definition broadcastChunk :: "bytes \<Rightarrow> int \<Rightarrow> wire_chunk list" where
  "broadcastChunk data sequence =
     (if length data \<le> MAX_CHUNK_SIZE then [(data, single_seq sequence)]
      else (let totalParts = ceil_div (length data) MAX_CHUNK_SIZE
            in broadcast_parts data sequence totalParts 0))"

subsection \<open>Receive path: \<open>handleChunkedMedia\<close>\<close>

record StreamEvent =
  ev_from :: "string option"
  ev_data :: "bytes option"
  ev_sequence :: "int option"
  ev_timestamp :: "int option"

record pending_frame =
  pf_chunks :: "(int, bytes) fmap"
  pf_totalParts :: int
  pf_from :: string
  pf_timestamp :: int

type_synonym pendingChunks = "(int, pending_frame) fmap"

definition decode_sequence :: "int \<Rightarrow> int \<times> int \<times> int" where
  \<comment> \<open>\<open>(frameNumber, partNumber, totalParts)\<close> as the first lines of \<open>handleChunkedMedia\<close> compute them\<close>
  "decode_sequence sequence =
     (let frameNumber = sequence div 10000;
          partInfo = js_rem sequence 10000;
          partNumber = js_rem partInfo 100;
          totalParts = partInfo div 100
      in (frameNumber, partNumber, totalParts))"

function collect_parts :: "(int, bytes) fmap \<Rightarrow> int \<Rightarrow> int \<Rightarrow> bytes list \<Rightarrow> bytes list option" where
  \<comment> \<open>the loop \<open>for (let i = 0; i < pending.totalParts; i++)\<close>; \<open>None\<close> is the early \<open>return null\<close>\<close>
  "collect_parts chunks totalParts i parts =
     (if i < totalParts then
        (case fmlookup chunks i of
           Some chunk \<Rightarrow> collect_parts chunks totalParts (i + 1) (parts @ [chunk])
         | None \<Rightarrow> None)
      else Some parts)"
  by pat_completeness auto
termination
  by (relation "measure (\<lambda>(chunks, totalParts, i, parts). nat (totalParts - i))") auto

declare collect_parts.simps [simp del]

definition drop_stale :: "int \<Rightarrow> pendingChunks \<Rightarrow> pendingChunks" where
  \<comment> \<open>the loop deleting every entry with \<open>now - p.timestamp > 5000\<close>\<close>
  "drop_stale now pending =
     fmfilter (\<lambda>fn. case fmlookup pending fn of
                       Some p \<Rightarrow> \<not> (now - pf_timestamp p > 5000)
                     | None \<Rightarrow> True) pending"

text \<open>
  \<open>handleChunkedMedia now event pending\<close>: \<open>now\<close> is the reading of \<open>Date.now()\<close> during
  the call, \<open>pending\<close> the field \<open>pendingChunks\<close>. The result is the returned buffer
  (\<open>None\<close> for \<open>null\<close>) and the field after the call. A falsy \<open>event.from\<close> or
  \<open>event.timestamp\<close> (absent, empty, zero) takes the default of the \<open>||\<close>.
\<close>

definition handleChunkedMedia :: "int \<Rightarrow> StreamEvent \<Rightarrow> pendingChunks \<Rightarrow> bytes option \<times> pendingChunks" where
  "handleChunkedMedia now event pending =
     (case (ev_data event, ev_sequence event) of
        (Some data, Some sequence) \<Rightarrow>
          (let (frameNumber, partNumber, totalParts) = decode_sequence sequence
           in if totalParts \<le> 1 \<and> partNumber = 0 then (Some data, pending)
              else
                (let pending1 =
                       (if frameNumber |\<in>| fmdom pending then pending
                        else fmupd frameNumber
                               \<lparr>pf_chunks = fmempty,
                                pf_totalParts = (if totalParts = 0 then 1 else totalParts),
                                pf_from = (case ev_from event of Some f \<Rightarrow> f | None \<Rightarrow> []),
                                pf_timestamp = (case ev_timestamp event of
                                                  Some t \<Rightarrow> if t = 0 then now else t
                                                | None \<Rightarrow> now)\<rparr> pending);
                     p0 = the (fmlookup pending1 frameNumber);
                     p1 = p0\<lparr>pf_chunks := fmupd partNumber data (pf_chunks p0)\<rparr>;
                     p2 = (if totalParts > 0 then p1\<lparr>pf_totalParts := totalParts\<rparr> else p1);
                     pending2 = fmupd frameNumber p2 pending1
                 in if int (fcard (fmdom (pf_chunks p2))) \<ge> pf_totalParts p2 then
                      (case collect_parts (pf_chunks p2) (pf_totalParts p2) 0 [] of
                         None \<Rightarrow> (None, fmdrop frameNumber pending2)
                       | Some parts \<Rightarrow>
                           (Some (concat parts), drop_stale now (fmdrop frameNumber pending2)))
                    else (None, pending2)))
      | _ \<Rightarrow> (None, pending))"

text \<open>
  The event loop of \<open>startListening\<close>, for \<open>mediaChunk\<close> events: each event is handed to
  \<open>handleChunkedMedia\<close> and a non-null result is emitted to the listeners. Every event
  comes with the clock reading of its handling. \<open>deliver\<close> returns the emitted buffers
  in order, and the pending table at the end.
\<close>

fun deliver :: "(int \<times> StreamEvent) list \<Rightarrow> pendingChunks \<Rightarrow> bytes list \<times> pendingChunks" where
  "deliver [] pending = ([], pending)"
| "deliver ((now, event) # rest) pending =
     (case handleChunkedMedia now event pending of
        (None, pending') \<Rightarrow> deliver rest pending'
      | (Some reassembled, pending') \<Rightarrow>
          (let (out, pending'') = deliver rest pending' in (reassembled # out, pending'')))"


subsection \<open>Notions used to state the fragmenter's properties\<close>

definition MAX_SAFE_INTEGER :: int where
  \<comment> \<open>\<open>Number.MAX_SAFE_INTEGER\<close>: up to it every integer is a double and integer
      arithmetic is exact\<close>
  "MAX_SAFE_INTEGER = 2 ^ 53 - 1"

definition valid_frameNumber :: "int \<Rightarrow> bool" where
  \<comment> \<open>a frame number that is not negative and all of whose tags, at most
      \<open>frameNumber * 10000 + 9999\<close>, the source computes exactly\<close>
  "valid_frameNumber frameNumber \<longleftrightarrow>
     0 \<le> frameNumber \<and> frameNumber * 10000 + 9999 \<le> MAX_SAFE_INTEGER"

definition multi_tag :: "int \<Rightarrow> int \<Rightarrow> int \<Rightarrow> int" where
  \<comment> \<open>the tag of part \<open>i\<close> of \<open>T\<close> of frame \<open>f\<close>, over \<open>int\<close>\<close>
  "multi_tag f i T = f * 10000 + i + T * 100"

definition frame_state :: "pendingChunks \<Rightarrow> int \<Rightarrow> int \<Rightarrow> (int, bytes) fmap \<Rightarrow> bool" where
  \<comment> \<open>frame \<open>f\<close> is either not pending (and \<open>C\<close> is empty) or pending with parts \<open>C\<close> of \<open>T\<close>\<close>
  "frame_state pend f T C \<longleftrightarrow>
     (fmlookup pend f = None \<and> C = fmempty)
     \<or> (\<exists>p. fmlookup pend f = Some p \<and> pf_chunks p = C \<and> pf_totalParts p = T)"

definition carries :: "(int \<times> StreamEvent) list \<Rightarrow> wire_chunk list \<Rightarrow> bool" where
  \<comment> \<open>the events deliver exactly the given sends, each once, in any order, with any sender,
      timestamps and clock readings\<close>
  "carries evs parts \<longleftrightarrow>
     mset (map (\<lambda>(now, e). (ev_data e, ev_sequence e)) evs)
       = mset (map (\<lambda>(d, s). (Some d, Some s)) parts)"

fun arrivals :: "int \<Rightarrow> wire_chunk list \<Rightarrow> (int \<times> StreamEvent) list" where
  \<comment> \<open>the sends arriving in the order given, all handled at clock reading \<open>now\<close>\<close>
  "arrivals now [] = []"
| "arrivals now ((data, seq) # rest) =
     (now, \<lparr>ev_from = None, ev_data = Some data, ev_sequence = Some seq, ev_timestamp = None\<rparr>)
       # arrivals now rest"

section \<open>Signaling (page LiveStreaming, \<open>handleWebRTCSignal\<close>)\<close>

text \<open>
  The negotiation engine (\<open>RTCPeerConnection\<close>) is external: a connection is modelled
  by what the handler does to it (the descriptions set and the candidates added, in
  order), every engine call is taken to resolve, and the session descriptions the engine
  produces are parameters. Callbacks the engine fires later (local ICE candidates, tracks,
  state changes) are outside the handler's own run.

  The handler is an \<open>async\<close> function, and the page starts it for each signal without
  waiting for the one before (\<open>handleWebRTCSignal(signal).catch(...)\<close>). It is modelled
  twice. \<open>handleWebRTCSignal\<close> below is one invocation run from its first line to its
  last with nothing in between: what happens when every promise it awaits is settled
  before the next signal arrives. \<open>async_step\<close>, further down, cuts the same code at each
  \<open>await\<close>, so that invocations interleave as the event loop allows.
\<close>

datatype signal_type = WebrtcOffer | WebrtcAnswer | WebrtcIceCandidate | WebrtcRequestOffer

type_synonym candidate = string

record WebRTCSignal =
  sig_type :: signal_type
  sig_from :: string
  sig_to :: "string option"
  sig_sdp :: "string option"
  sig_candidate :: "candidate option"

datatype readyState = Live | Ended

datatype sdp_type = Offer | Answer

record RTCPeerConnection =
  pc_tracks :: "readyState list"
  pc_localDescription :: "(sdp_type \<times> string option) option"
  pc_remoteDescription :: "(sdp_type \<times> string option) option"
  pc_candidates :: "candidate list"

record PeerConnectionInfo =
  pc :: RTCPeerConnection
  peerId :: string

record engine =
  createOffer :: "RTCPeerConnection \<Rightarrow> string"
  createAnswer :: "RTCPeerConnection \<Rightarrow> string"

text \<open>
  The refs the handler reads and writes. \<open>streamChannel\<close> is \<open>streamChannelRef.current\<close>:
  \<open>None\<close> for \<open>null\<close>, otherwise the signals handed to \<open>channel.broadcastSignal\<close>
  so far, oldest first.
\<close>

record LiveStreaming =
  ls_myEndpointId :: string
  streamChannel :: "WebRTCSignal list option"
  mediaStream :: "readyState list option"
  peerConnections :: "(string, PeerConnectionInfo) fmap"
  pendingIceCandidates :: "(string, candidate list) fmap"

definition createBroadcasterPeerConnection :: "readyState list \<Rightarrow> RTCPeerConnection" where
  "createBroadcasterPeerConnection stream =
     \<lparr>pc_tracks = stream, pc_localDescription = None, pc_remoteDescription = None,
      pc_candidates = []\<rparr>"

definition createViewerPeerConnection :: RTCPeerConnection where
  "createViewerPeerConnection =
     \<lparr>pc_tracks = [], pc_localDescription = None, pc_remoteDescription = None,
      pc_candidates = []\<rparr>"

definition setLocalDescription :: "sdp_type \<times> string option \<Rightarrow> RTCPeerConnection \<Rightarrow> RTCPeerConnection" where
  "setLocalDescription d c = c\<lparr>pc_localDescription := Some d\<rparr>"

definition setRemoteDescription :: "sdp_type \<times> string option \<Rightarrow> RTCPeerConnection \<Rightarrow> RTCPeerConnection" where
  "setRemoteDescription d c = c\<lparr>pc_remoteDescription := Some d\<rparr>"

definition addIceCandidate :: "candidate \<Rightarrow> RTCPeerConnection \<Rightarrow> RTCPeerConnection" where
  "addIceCandidate cand c = c\<lparr>pc_candidates := pc_candidates c @ [cand]\<rparr>"

definition pending_or_empty :: "(string, candidate list) fmap \<Rightarrow> string \<Rightarrow> candidate list" where
  \<comment> \<open>\<open>pendingIceCandidatesRef.current.get(signal.from!) || []\<close>\<close>
  "pending_or_empty q p = (case fmlookup q p of Some cs \<Rightarrow> cs | None \<Rightarrow> [])"

definition on_request_offer :: "engine \<Rightarrow> WebRTCSignal \<Rightarrow> WebRTCSignal list \<Rightarrow> LiveStreaming \<Rightarrow> LiveStreaming" where
  \<comment> \<open>\<open>case 'webrtc-request-offer'\<close>; \<open>sent\<close> is what the channel has broadcast so far\<close>
  "on_request_offer eng signal sent s =
     (case mediaStream s of
        None \<Rightarrow> s
      | Some tracks \<Rightarrow>
          (let activeTracks = filter (\<lambda>t. t = Live) tracks
           in if length activeTracks = 0 then s
              else
                (let c0 = createBroadcasterPeerConnection tracks;
                     offer = createOffer eng c0;
                     c1 = setLocalDescription (Offer, Some offer) c0;
                     offerSignal = \<lparr>sig_type = WebrtcOffer, sig_from = ls_myEndpointId s,
                                    sig_to = Some (sig_from signal), sig_sdp = Some offer,
                                    sig_candidate = None\<rparr>
                 in s\<lparr>peerConnections :=
                         fmupd (sig_from signal) \<lparr>pc = c1, peerId = sig_from signal\<rparr>
                           (peerConnections s),
                       streamChannel := Some (sent @ [offerSignal])\<rparr>)))"

definition on_offer :: "engine \<Rightarrow> WebRTCSignal \<Rightarrow> WebRTCSignal list \<Rightarrow> LiveStreaming \<Rightarrow> LiveStreaming" where
  \<comment> \<open>\<open>case 'webrtc-offer'\<close>\<close>
  "on_offer eng signal sent s =
     (let c0 = createViewerPeerConnection;
          c1 = setRemoteDescription (Offer, sig_sdp signal) c0;
          pending = pending_or_empty (pendingIceCandidates s) (sig_from signal);
          c2 = fold addIceCandidate pending c1;
          answer = createAnswer eng c2;
          c3 = setLocalDescription (Answer, Some answer) c2;
          answerSignal = \<lparr>sig_type = WebrtcAnswer, sig_from = ls_myEndpointId s,
                          sig_to = Some (sig_from signal), sig_sdp = Some answer,
                          sig_candidate = None\<rparr>
      in s\<lparr>peerConnections :=
              fmupd (sig_from signal) \<lparr>pc = c3, peerId = sig_from signal\<rparr> (peerConnections s),
            pendingIceCandidates := fmdrop (sig_from signal) (pendingIceCandidates s),
            streamChannel := Some (sent @ [answerSignal])\<rparr>)"

definition on_answer :: "WebRTCSignal \<Rightarrow> LiveStreaming \<Rightarrow> LiveStreaming" where
  \<comment> \<open>\<open>case 'webrtc-answer'\<close>\<close>
  "on_answer signal s =
     (case fmlookup (peerConnections s) (sig_from signal) of
        None \<Rightarrow> s
      | Some peerInfo \<Rightarrow>
          (let c1 = setRemoteDescription (Answer, sig_sdp signal) (pc peerInfo);
               pending = pending_or_empty (pendingIceCandidates s) (sig_from signal);
               c2 = fold addIceCandidate pending c1
           in s\<lparr>peerConnections :=
                   fmupd (sig_from signal) (peerInfo\<lparr>pc := c2\<rparr>) (peerConnections s),
                 pendingIceCandidates := fmdrop (sig_from signal) (pendingIceCandidates s)\<rparr>))"

definition queue_candidate :: "string \<Rightarrow> candidate \<Rightarrow> LiveStreaming \<Rightarrow> LiveStreaming" where
  \<comment> \<open>the \<open>else\<close> branch of \<open>case 'webrtc-ice-candidate'\<close>: create the queue if absent, then push\<close>
  "queue_candidate p cand s =
     (let q = (if p |\<in>| fmdom (pendingIceCandidates s) then pendingIceCandidates s
               else fmupd p [] (pendingIceCandidates s))
      in s\<lparr>pendingIceCandidates := fmupd p (the (fmlookup q p) @ [cand]) q\<rparr>)"

definition on_ice_candidate :: "WebRTCSignal \<Rightarrow> LiveStreaming \<Rightarrow> LiveStreaming" where
  \<comment> \<open>\<open>case 'webrtc-ice-candidate'\<close>\<close>
  "on_ice_candidate signal s =
     (case sig_candidate signal of
        None \<Rightarrow> s
      | Some cand \<Rightarrow>
          (case fmlookup (peerConnections s) (sig_from signal) of
             Some peerInfo \<Rightarrow>
               if pc_remoteDescription (pc peerInfo) \<noteq> None then
                 s\<lparr>peerConnections :=
                     fmupd (sig_from signal) (peerInfo\<lparr>pc := addIceCandidate cand (pc peerInfo)\<rparr>)
                       (peerConnections s)\<rparr>
               else queue_candidate (sig_from signal) cand s
           | None \<Rightarrow> queue_candidate (sig_from signal) cand s))"

definition handleWebRTCSignal :: "engine \<Rightarrow> WebRTCSignal \<Rightarrow> LiveStreaming \<Rightarrow> LiveStreaming" where
  \<comment> \<open>one invocation, run from its first line to its last with no other in between\<close>
  "handleWebRTCSignal eng signal s =
     (if sig_from signal = ls_myEndpointId s then s
      else if (case sig_to signal of
                 Some t \<Rightarrow> t \<noteq> [] \<and> t \<noteq> ls_myEndpointId s
               | None \<Rightarrow> False) then s
      else
        (case streamChannel s of
           None \<Rightarrow> s
         | Some sent \<Rightarrow>
             (case sig_type signal of
                WebrtcRequestOffer \<Rightarrow> on_request_offer eng signal sent s
              | WebrtcOffer \<Rightarrow> on_offer eng signal sent s
              | WebrtcAnswer \<Rightarrow> on_answer signal s
              | WebrtcIceCandidate \<Rightarrow> on_ice_candidate signal s)))"

subsection \<open>Notions used to state the signaling properties\<close>

definition accepted :: "LiveStreaming \<Rightarrow> WebRTCSignal \<Rightarrow> bool" where
  "accepted s signal \<longleftrightarrow>
     sig_from signal \<noteq> ls_myEndpointId s
     \<and> (case sig_to signal of Some t \<Rightarrow> t = [] \<or> t = ls_myEndpointId s | None \<Rightarrow> True)
     \<and> streamChannel s \<noteq> None"






fun receive_signals :: "engine \<Rightarrow> WebRTCSignal list \<Rightarrow> LiveStreaming \<Rightarrow> LiveStreaming" where
  \<comment> \<open>signals handled one after the other, each invocation run to its end before the next\<close>
  "receive_signals eng [] s = s"
| "receive_signals eng (signal # rest) s = receive_signals eng rest (handleWebRTCSignal eng signal s)"

definition has_live_track :: "LiveStreaming \<Rightarrow> bool" where
  "has_live_track s \<longleftrightarrow>
     (case mediaStream s of Some tracks \<Rightarrow> Live \<in> set tracks | None \<Rightarrow> False)"

definition offer_signal :: "engine \<Rightarrow> WebRTCSignal \<Rightarrow> LiveStreaming \<Rightarrow> WebRTCSignal" where
  \<comment> \<open>the offer sent in answer to a \<open>webrtc-request-offer\<close>\<close>
  "offer_signal eng signal s =
     \<lparr>sig_type = WebrtcOffer, sig_from = ls_myEndpointId s, sig_to = Some (sig_from signal),
      sig_sdp = Some (createOffer eng (createBroadcasterPeerConnection (the (mediaStream s)))),
      sig_candidate = None\<rparr>"

subsection \<open>Interleaved invocations of \<open>handleWebRTCSignal\<close>\<close>

text \<open>
  An invocation runs until its next \<open>await\<close> and is then suspended; other invocations
  may start or go on before it is resumed. Two invocations can hold the same connection
  or the same queue array, so both live in a store: a connection is named by its position
  in \<open>as_connections\<close>, a queue array by its position in \<open>as_arrays\<close>, and the two maps
  of the page hold positions. (The \<open>peerId\<close> field of a map entry is always its key and is
  left out.)

  A description is set on a connection when \<open>setLocalDescription\<close> or
  \<open>setRemoteDescription\<close> resolves, which is when the invocation awaiting it goes on. A
  candidate counts as added when \<open>addIceCandidate\<close> is called: the engine takes the
  candidates of a connection in the order of the calls. A signal is handed to the channel
  when \<open>broadcastSignal\<close> is called.

  Any suspended invocation may be the next to go on: the model does not say in which order
  promises settle. An engine settles the promises of one connection in the order of the
  calls; the runs given below as examples respect that.
\<close>

datatype task =
    AwaitCreateOffer nat WebRTCSignal
      \<comment> \<open>\<open>await pc.createOffer()\<close>: the connection, the signal handled\<close>
  | AwaitSetLocalOffer nat WebRTCSignal string
      \<comment> \<open>\<open>await pc.setLocalDescription(offer)\<close>\<close>
  | AwaitSetRemoteDescription sdp_type nat WebRTCSignal
      \<comment> \<open>\<open>await pc.setRemoteDescription(...)\<close>, in \<open>case 'webrtc-offer'\<close> or \<open>'webrtc-answer'\<close>\<close>
  | AwaitAddIceCandidate sdp_type nat WebRTCSignal "nat option" nat
      \<comment> \<open>\<open>await pc.addIceCandidate(candidate)\<close> inside \<open>for (const candidate of pending)\<close>:
          the array iterated (\<open>None\<close> for the fresh \<open>[]\<close>) and the position of the next element\<close>
  | AwaitCreateAnswer nat WebRTCSignal
      \<comment> \<open>\<open>await pc.createAnswer()\<close>\<close>
  | AwaitSetLocalAnswer nat WebRTCSignal string
      \<comment> \<open>\<open>await pc.setLocalDescription(answer)\<close>\<close>
  | AwaitLast
      \<comment> \<open>the last \<open>await\<close> of a case (\<open>broadcastSignal\<close>, or \<open>addIceCandidate\<close> of a candidate
          applied at once): nothing is left to do\<close>

record AsyncSession =
  as_myEndpointId :: string
  as_streamChannel :: "WebRTCSignal list option"
  as_mediaStream :: "readyState list option"
  as_connections :: "RTCPeerConnection list"
  as_peerConnections :: "(string, nat) fmap"
  as_arrays :: "candidate list list"
  as_pendingIceCandidates :: "(string, nat) fmap"
  as_suspended :: "task list"

definition on_connection :: "nat \<Rightarrow> (RTCPeerConnection \<Rightarrow> RTCPeerConnection) \<Rightarrow> AsyncSession \<Rightarrow> AsyncSession" where
  "on_connection a f st = st\<lparr>as_connections := (as_connections st)[a := f (as_connections st ! a)]\<rparr>"

definition new_connection :: "string \<Rightarrow> RTCPeerConnection \<Rightarrow> AsyncSession \<Rightarrow> AsyncSession" where
  \<comment> \<open>\<open>peerConnectionsRef.current.set(signal.from!, { pc, peerId: signal.from! })\<close> with a
      connection just created: it takes the next free position of the store\<close>
  "new_connection p c st =
     st\<lparr>as_connections := as_connections st @ [c],
        as_peerConnections := fmupd p (length (as_connections st)) (as_peerConnections st)\<rparr>"

definition suspend :: "task \<Rightarrow> AsyncSession \<Rightarrow> AsyncSession" where
  "suspend t st = st\<lparr>as_suspended := as_suspended st @ [t]\<rparr>"

definition channel_broadcastSignal :: "WebRTCSignal \<Rightarrow> AsyncSession \<Rightarrow> AsyncSession" where
  \<comment> \<open>on the channel the invocation read from the ref when it started\<close>
  "channel_broadcastSignal signal st =
     st\<lparr>as_streamChannel := map_option (\<lambda>sent. sent @ [signal]) (as_streamChannel st)\<rparr>"

definition after_flush :: "sdp_type \<Rightarrow> nat \<Rightarrow> WebRTCSignal \<Rightarrow> AsyncSession \<Rightarrow> AsyncSession" where
  \<comment> \<open>after the loop: the queue is deleted, and an offer goes on to its answer\<close>
  "after_flush role a signal st =
     (let st1 = st\<lparr>as_pendingIceCandidates :=
                     fmdrop (sig_from signal) (as_pendingIceCandidates st)\<rparr>
      in case role of
           Offer \<Rightarrow> suspend (AwaitCreateAnswer a signal) st1
         | Answer \<Rightarrow> st1)"

definition flush_next :: "sdp_type \<Rightarrow> nat \<Rightarrow> WebRTCSignal \<Rightarrow> nat option \<Rightarrow> nat \<Rightarrow> AsyncSession \<Rightarrow> AsyncSession" where
  \<comment> \<open>the head of \<open>for (const candidate of pending)\<close>: the iterator reads the array as it
      is now\<close>
  "flush_next role a signal arr i st =
     (let pending = (case arr of Some q \<Rightarrow> as_arrays st ! q | None \<Rightarrow> [])
      in if i < length pending then
           suspend (AwaitAddIceCandidate role a signal arr (i + 1))
             (on_connection a (addIceCandidate (pending ! i)) st)
         else after_flush role a signal st)"

definition async_queue :: "string \<Rightarrow> candidate \<Rightarrow> AsyncSession \<Rightarrow> AsyncSession" where
  \<comment> \<open>the \<open>else\<close> branch of \<open>case 'webrtc-ice-candidate'\<close>: a new array if the map has none
      for the peer, then a push on the array the map holds\<close>
  "async_queue p cand st =
     (let st1 = (if p |\<in>| fmdom (as_pendingIceCandidates st) then st
                 else st\<lparr>as_arrays := as_arrays st @ [[]],
                         as_pendingIceCandidates :=
                           fmupd p (length (as_arrays st)) (as_pendingIceCandidates st)\<rparr>);
          q = the (fmlookup (as_pendingIceCandidates st1) p)
      in st1\<lparr>as_arrays := (as_arrays st1)[q := as_arrays st1 ! q @ [cand]]\<rparr>)"

definition async_arrive :: "WebRTCSignal \<Rightarrow> AsyncSession \<Rightarrow> AsyncSession" where
  \<comment> \<open>a new invocation, from its first line to its first \<open>await\<close> or its return\<close>
  "async_arrive signal st =
     (if sig_from signal = as_myEndpointId st then st
      else if (case sig_to signal of
                 Some t \<Rightarrow> t \<noteq> [] \<and> t \<noteq> as_myEndpointId st
               | None \<Rightarrow> False) then st
      else
        (case as_streamChannel st of
           None \<Rightarrow> st
         | Some sent \<Rightarrow>
             (case sig_type signal of
                WebrtcRequestOffer \<Rightarrow>
                  (case as_mediaStream st of
                     None \<Rightarrow> st
                   | Some tracks \<Rightarrow>
                       (let activeTracks = filter (\<lambda>t. t = Live) tracks
                        in if length activeTracks = 0 then st
                           else
                             suspend (AwaitCreateOffer (length (as_connections st)) signal)
                               (new_connection (sig_from signal)
                                  (createBroadcasterPeerConnection tracks) st)))
              | WebrtcOffer \<Rightarrow>
                  suspend (AwaitSetRemoteDescription Offer (length (as_connections st)) signal)
                    (new_connection (sig_from signal) createViewerPeerConnection st)
              | WebrtcAnswer \<Rightarrow>
                  (case fmlookup (as_peerConnections st) (sig_from signal) of
                     None \<Rightarrow> st
                   | Some a \<Rightarrow> suspend (AwaitSetRemoteDescription Answer a signal) st)
              | WebrtcIceCandidate \<Rightarrow>
                  (case sig_candidate signal of
                     None \<Rightarrow> st
                   | Some cand \<Rightarrow>
                       (case fmlookup (as_peerConnections st) (sig_from signal) of
                          Some a \<Rightarrow>
                            if pc_remoteDescription (as_connections st ! a) \<noteq> None then
                              suspend AwaitLast (on_connection a (addIceCandidate cand) st)
                            else async_queue (sig_from signal) cand st
                        | None \<Rightarrow> async_queue (sig_from signal) cand st)))))"

fun async_resume :: "engine \<Rightarrow> task \<Rightarrow> AsyncSession \<Rightarrow> AsyncSession" where
  \<comment> \<open>a suspended invocation, from the \<open>await\<close> it stands at to the next one or to its end\<close>
  "async_resume eng (AwaitCreateOffer a signal) st =
     suspend (AwaitSetLocalOffer a signal (createOffer eng (as_connections st ! a))) st"
| "async_resume eng (AwaitSetLocalOffer a signal offer) st =
     suspend AwaitLast
       (channel_broadcastSignal
          \<lparr>sig_type = WebrtcOffer, sig_from = as_myEndpointId st,
           sig_to = Some (sig_from signal), sig_sdp = Some offer, sig_candidate = None\<rparr>
          (on_connection a (setLocalDescription (Offer, Some offer)) st))"
| "async_resume eng (AwaitSetRemoteDescription role a signal) st =
     (let st1 = on_connection a (setRemoteDescription (role, sig_sdp signal)) st
      in flush_next role a signal (fmlookup (as_pendingIceCandidates st1) (sig_from signal)) 0 st1)"
| "async_resume eng (AwaitAddIceCandidate role a signal arr i) st =
     flush_next role a signal arr i st"
| "async_resume eng (AwaitCreateAnswer a signal) st =
     suspend (AwaitSetLocalAnswer a signal (createAnswer eng (as_connections st ! a))) st"
| "async_resume eng (AwaitSetLocalAnswer a signal answer) st =
     suspend AwaitLast
       (channel_broadcastSignal
          \<lparr>sig_type = WebrtcAnswer, sig_from = as_myEndpointId st,
           sig_to = Some (sig_from signal), sig_sdp = Some answer, sig_candidate = None\<rparr>
          (on_connection a (setLocalDescription (Answer, Some answer)) st))"
| "async_resume eng AwaitLast st = st"

datatype action =
    Arrive WebRTCSignal  \<comment> \<open>the page starts the handler on a signal\<close>
  | Resume nat           \<comment> \<open>the promise awaited by the suspended invocation at this position settles\<close>

definition async_step :: "engine \<Rightarrow> action \<Rightarrow> AsyncSession \<Rightarrow> AsyncSession" where
  "async_step eng act st =
     (case act of
        Arrive signal \<Rightarrow> async_arrive signal st
      | Resume k \<Rightarrow>
          if k < length (as_suspended st) then
            async_resume eng (as_suspended st ! k)
              (st\<lparr>as_suspended := take k (as_suspended st) @ drop (Suc k) (as_suspended st)\<rparr>)
          else st)"

fun async_run :: "engine \<Rightarrow> action list \<Rightarrow> AsyncSession \<Rightarrow> AsyncSession" where
  "async_run eng [] st = st"
| "async_run eng (act # rest) st = async_run eng rest (async_step eng act st)"

text \<open>
  What the refs of the page hold in a state of the interleaved model, the store read
  through; and the condition that keeps the store a faithful picture of the objects: every
  position held by a map exists, and no two peers hold the same connection or the same
  array.
\<close>

definition view :: "AsyncSession \<Rightarrow> LiveStreaming" where
  "view st =
     \<lparr>ls_myEndpointId = as_myEndpointId st, streamChannel = as_streamChannel st,
      mediaStream = as_mediaStream st,
      peerConnections =
        fmmap_keys (\<lambda>p a. \<lparr>pc = as_connections st ! a, peerId = p\<rparr>) (as_peerConnections st),
      pendingIceCandidates = fmmap (\<lambda>q. as_arrays st ! q) (as_pendingIceCandidates st)\<rparr>"

definition store_ok :: "AsyncSession \<Rightarrow> bool" where
  "store_ok st \<longleftrightarrow>
     (\<forall>p a. fmlookup (as_peerConnections st) p = Some a \<longrightarrow> a < length (as_connections st))
   \<and> (\<forall>p p' a. fmlookup (as_peerConnections st) p = Some a
                \<and> fmlookup (as_peerConnections st) p' = Some a \<longrightarrow> p = p')
   \<and> (\<forall>p q. fmlookup (as_pendingIceCandidates st) p = Some q \<longrightarrow> q < length (as_arrays st))
   \<and> (\<forall>p p' q. fmlookup (as_pendingIceCandidates st) p = Some q
                \<and> fmlookup (as_pendingIceCandidates st) p' = Some q \<longrightarrow> p = p')"

fun sequential :: "(WebRTCSignal \<times> nat) list \<Rightarrow> action list" where
  \<comment> \<open>signals handled one after the other: each arrives, and its invocation is resumed the
      given number of times before the next signal arrives\<close>
  "sequential [] = []"
| "sequential ((signal, n) # rest) = Arrive signal # replicate n (Resume 0) @ sequential rest"

definition async_handle :: "AsyncSession \<Rightarrow> string \<Rightarrow> RTCPeerConnection option" where
  \<comment> \<open>the connection the page holds for a peer\<close>
  "async_handle st p =
     (case fmlookup (as_peerConnections st) p of
        Some a \<Rightarrow> Some (as_connections st ! a)
      | None \<Rightarrow> None)"


section \<open>File-chunk exchange (services/video-streaming.ts)\<close>

text \<open>
  Chunk indices and counts are JavaScript numbers; the model takes those carried by a
  message as integers. The index given to the broadcaster's \<open>handleChunkRequest\<close> is
  any finite number, a \<open>rat\<close>: there an index that is not an integer makes the source
  throw. (\<open>NaN\<close> and the infinities fail one of the two comparisons, as an index out of
  range does.) A call on the channel is recorded with the message it is given, before
  \<open>encodeVideoMessage\<close> serialises it; an optional callback is a flag saying whether
  it is set, and a call of it is recorded in the same list. Every handler returns the calls
  it makes, in order; a handler of the broadcaster returns with them the exception that
  ends the call, \<open>None\<close> when it completes.
\<close>

definition VIDEO_CHUNK_SIZE :: nat where
  "VIDEO_CHUNK_SIZE = 64 * 1024"

datatype video_type =
  VideoMetadataMsg | VideoChunk | VideoRequestChunk | VideoHaveChunks | VideoRequestMetadata

record VideoStreamMessage =
  vm_type :: video_type
  vm_from :: string
  vm_fileSize :: "int option"
  vm_fileName :: "string option"
  vm_mimeType :: "string option"
  vm_totalChunks :: "int option"
  vm_duration :: "int option"
  vm_chunkIndex :: "int option"
  vm_chunkData :: "bytes option"
  vm_availableChunks :: "int list option"

record VideoMetadata =
  md_fileName :: string
  md_fileSize :: int
  md_mimeType :: string
  md_totalChunks :: int
  md_duration :: "int option"

datatype error = TypeError

datatype effect =
    ChannelBroadcastSignal VideoStreamMessage
  | ChannelBroadcastChunk VideoStreamMessage int
  | OnPeerRequest string rat
  | OnProgress nat int
  | OnMetadata VideoMetadata
  | OnReady
  | ScheduleRequestBatch
  | AssembleAndPlay "bytes list"

subsection \<open>\<open>VideoFileBroadcaster\<close>\<close>

record File =
  file_name :: string
  file_type :: string
  file_data :: bytes

record VideoFileBroadcaster =
  bc_file :: File
  bc_chunks :: "bytes list"
  bc_metadata :: VideoMetadata
  bc_myEndpointId :: string
  bc_isStreaming :: bool
  bc_currentChunkIndex :: nat
  bc_onProgress :: bool
  bc_onPeerRequest :: bool

definition new_VideoFileBroadcaster :: "File \<Rightarrow> string \<Rightarrow> VideoFileBroadcaster" where
  "new_VideoFileBroadcaster file myEndpointId =
     \<lparr>bc_file = file, bc_chunks = [],
      bc_metadata =
        \<lparr>md_fileName = file_name file,
         md_fileSize = int (length (file_data file)),
         md_mimeType = (if file_type file = [] then ''video/mp4'' else file_type file),
         md_totalChunks = int (ceil_div (length (file_data file)) VIDEO_CHUNK_SIZE),
         md_duration = None\<rparr>,
      bc_myEndpointId = myEndpointId, bc_isStreaming = False, bc_currentChunkIndex = 0,
      bc_onProgress = False, bc_onPeerRequest = False\<rparr>"

function split_chunks :: "bytes \<Rightarrow> nat \<Rightarrow> bytes list \<Rightarrow> bytes list" where
  \<comment> \<open>the loop \<open>for (let i = 0; i < data.length; i += VIDEO_CHUNK_SIZE)\<close> of \<open>prepare\<close>\<close>
  "split_chunks data i chunks =
     (if i < length data then
        split_chunks data (i + VIDEO_CHUNK_SIZE)
          (chunks @ [slice data i (min (i + VIDEO_CHUNK_SIZE) (length data))])
      else chunks)"
  by pat_completeness auto
termination
  by (relation "measure (\<lambda>(data, i, chunks). length data - i)")
     (auto simp: VIDEO_CHUNK_SIZE_def)

declare split_chunks.simps [simp del]

definition prepare :: "VideoFileBroadcaster \<Rightarrow> VideoFileBroadcaster" where
  "prepare b =
     (let chunks = split_chunks (file_data (bc_file b)) 0 []
      in b\<lparr>bc_chunks := chunks,
           bc_metadata := (bc_metadata b)\<lparr>md_totalChunks := int (length chunks)\<rparr>\<rparr>)"

definition metadata_message :: "VideoFileBroadcaster \<Rightarrow> VideoStreamMessage" where
  "metadata_message b =
     \<lparr>vm_type = VideoMetadataMsg, vm_from = bc_myEndpointId b,
      vm_fileSize = Some (md_fileSize (bc_metadata b)),
      vm_fileName = Some (md_fileName (bc_metadata b)),
      vm_mimeType = Some (md_mimeType (bc_metadata b)),
      vm_totalChunks = Some (md_totalChunks (bc_metadata b)),
      vm_duration = md_duration (bc_metadata b),
      vm_chunkIndex = None, vm_chunkData = None, vm_availableChunks = None\<rparr>"

definition chunk_message :: "string \<Rightarrow> int \<Rightarrow> bytes \<Rightarrow> VideoStreamMessage" where
  \<comment> \<open>\<open>{ type: 'video-chunk', from, chunkIndex, chunkData: Array.from(chunk) }\<close>\<close>
  "chunk_message sender index chunk =
     \<lparr>vm_type = VideoChunk, vm_from = sender,
      vm_fileSize = None, vm_fileName = None, vm_mimeType = None, vm_totalChunks = None,
      vm_duration = None,
      vm_chunkIndex = Some index, vm_chunkData = Some chunk, vm_availableChunks = None\<rparr>"

definition broadcastMetadata :: "VideoFileBroadcaster \<Rightarrow> effect list" where
  "broadcastMetadata b = [ChannelBroadcastSignal (metadata_message b)]"

definition is_integer :: "rat \<Rightarrow> bool" where
  "is_integer x \<longleftrightarrow> of_int \<lfloor>x\<rfloor> = x"

definition broadcaster_broadcastChunk :: "VideoFileBroadcaster \<Rightarrow> rat \<Rightarrow> effect list \<times> error option" where
  \<comment> \<open>\<open>this.chunks[index]\<close> is \<open>undefined\<close> for an index that is not an integer, and
      \<open>Array.from(undefined)\<close> throws a \<open>TypeError\<close> before anything is sent\<close>
  "broadcaster_broadcastChunk b index =
     (if index < 0 \<or> index \<ge> of_nat (length (bc_chunks b)) then ([], None)
      else if is_integer index then
        (let chunk = bc_chunks b ! nat \<lfloor>index\<rfloor>
         in ([ChannelBroadcastChunk (chunk_message (bc_myEndpointId b) \<lfloor>index\<rfloor> chunk) \<lfloor>index\<rfloor>],
             None))
      else ([], Some TypeError))"

definition broadcaster_handleChunkRequest :: "VideoFileBroadcaster \<Rightarrow> string \<Rightarrow> rat \<Rightarrow> effect list \<times> error option" where
  "broadcaster_handleChunkRequest b peer chunkIndex =
     (let observed = (if bc_onPeerRequest b then [OnPeerRequest peer chunkIndex] else [])
      in if chunkIndex \<ge> 0 \<and> chunkIndex < of_nat (length (bc_chunks b)) then
           (let (calls, thrown) = broadcaster_broadcastChunk b chunkIndex
            in (observed @ calls, thrown))
         else (observed, None))"

definition broadcaster_handleVideoMessage :: "VideoFileBroadcaster \<Rightarrow> VideoStreamMessage \<Rightarrow> effect list \<times> error option" where
  "broadcaster_handleVideoMessage b message =
     (if vm_from message = bc_myEndpointId b then ([], None)
      else
        (case vm_type message of
           VideoRequestMetadata \<Rightarrow> (broadcastMetadata b, None)
         | VideoRequestChunk \<Rightarrow>
             (case vm_chunkIndex message of
                Some chunkIndex \<Rightarrow>
                  broadcaster_handleChunkRequest b (vm_from message) (of_int chunkIndex)
              | None \<Rightarrow> ([], None))
         | _ \<Rightarrow> ([], None)))"

subsection \<open>\<open>VideoFileViewer\<close>\<close>

text \<open>
  A JavaScript \<open>Set\<close> is the list of its elements in insertion order, without
  repetition: \<open>set_add\<close> is \<open>add\<close>, \<open>removeAll\<close> is \<open>delete\<close>, \<open>length\<close>
  is \<open>size\<close>.
\<close>

definition set_add :: "'a \<Rightarrow> 'a list \<Rightarrow> 'a list" where
  "set_add x xs = (if x \<in> set xs then xs else xs @ [x])"

record video_element =
  ve_src :: "bytes list option"

record VideoFileViewer =
  vw_myEndpointId :: string
  vw_metadata :: "VideoMetadata option"
  vw_chunks :: "(int, bytes) fmap"
  vw_receivedChunks :: "int list"
  vw_pendingRequests :: "int list"
  vw_videoElement :: "video_element option"
  vw_lastAppendedIndex :: int
  vw_peerChunks :: "(string, int list) fmap"
  vw_onMetadata :: bool
  vw_onProgress :: bool
  vw_onReady :: bool

function ordered_chunks :: "(int, bytes) fmap \<Rightarrow> int \<Rightarrow> int \<Rightarrow> bytes list \<Rightarrow> bytes list" where
  \<comment> \<open>the loop of \<open>assembleAndPlay\<close>, which stops at the first missing chunk\<close>
  "ordered_chunks chunks count' i orderedChunks =
     (if i < count' then
        (case fmlookup chunks i of
           Some chunk \<Rightarrow> ordered_chunks chunks count' (i + 1) (orderedChunks @ [chunk])
         | None \<Rightarrow> orderedChunks)
      else orderedChunks)"
  by pat_completeness auto
termination
  by (relation "measure (\<lambda>(chunks, count', i, orderedChunks). nat (count' - i))") auto

declare ordered_chunks.simps [simp del]

definition assembleAndPlay :: "VideoFileViewer \<Rightarrow> int \<Rightarrow> VideoFileViewer \<times> effect list" where
  \<comment> \<open>up to the blob of the ordered chunks becoming the element's source; what the player
      does with it (load, seek, play) is not modelled\<close>
  "assembleAndPlay v chunkCount =
     (case (vw_metadata v, vw_videoElement v) of
        (Some metadata, Some element) \<Rightarrow>
          (let count' = (if chunkCount = 0 then md_totalChunks metadata else chunkCount);
               orderedChunks = ordered_chunks (vw_chunks v) count' 0 []
           in if length orderedChunks = 0 then (v, [])
              else (v\<lparr>vw_videoElement := Some (element\<lparr>ve_src := Some orderedChunks\<rparr>)\<rparr>,
                    [AssembleAndPlay orderedChunks]))
      | _ \<Rightarrow> (v, []))"

function count_sequential :: "(int, bytes) fmap \<Rightarrow> int \<Rightarrow> int \<Rightarrow> int" where
  \<comment> \<open>the counting loop of \<open>tryProgressivePlay\<close>; the result is \<open>sequentialCount\<close>\<close>
  "count_sequential chunks totalChunks i =
     (if i < totalChunks then
        (if i |\<in>| fmdom chunks then count_sequential chunks totalChunks (i + 1) else i)
      else i)"
  by pat_completeness auto
termination
  by (relation "measure (\<lambda>(chunks, totalChunks, i). nat (totalChunks - i))") auto

declare count_sequential.simps [simp del]

definition tryProgressivePlay :: "VideoFileViewer \<Rightarrow> VideoFileViewer \<times> effect list" where
  "tryProgressivePlay v =
     (case (vw_metadata v, vw_videoElement v) of
        (Some metadata, Some element) \<Rightarrow>
          (let sequentialCount = count_sequential (vw_chunks v) (md_totalChunks metadata) 0;
               v1 = v\<lparr>vw_lastAppendedIndex := sequentialCount - 1\<rparr>;
               isWebM = sublist ''webm'' (md_mimeType metadata);
               hasAllChunks = (int (length (vw_receivedChunks v)) \<ge> md_totalChunks metadata);
               sequentialPercent = real_of_int sequentialCount / real_of_int (md_totalChunks metadata) * 100
           in if hasAllChunks \<and> sequentialCount \<ge> md_totalChunks metadata then
                assembleAndPlay v1 sequentialCount
              else if isWebM \<and> sequentialPercent \<ge> 10 \<and> ve_src element = None then
                assembleAndPlay v1 sequentialCount
              else (v1, []))
      | _ \<Rightarrow> (v, []))"

definition announceChunks :: "VideoFileViewer \<Rightarrow> effect list" where
  "announceChunks v =
     (if length (vw_receivedChunks v) mod 10 \<noteq> 0 then []
      else [ChannelBroadcastSignal
              \<lparr>vm_type = VideoHaveChunks, vm_from = vw_myEndpointId v,
               vm_fileSize = None, vm_fileName = None, vm_mimeType = None,
               vm_totalChunks = None, vm_duration = None, vm_chunkIndex = None,
               vm_chunkData = None, vm_availableChunks = Some (vw_receivedChunks v)\<rparr>])"

definition handleChunk :: "VideoFileViewer \<Rightarrow> VideoStreamMessage \<Rightarrow> VideoFileViewer \<times> effect list" where
  "handleChunk v message =
     (case (vm_chunkIndex message, vm_chunkData message) of
        (Some index, Some chunkData) \<Rightarrow>
          if index \<in> set (vw_receivedChunks v) then (v, [])
          else
            (let v1 = v\<lparr>vw_chunks := fmupd index chunkData (vw_chunks v),
                        vw_receivedChunks := set_add index (vw_receivedChunks v),
                        vw_pendingRequests := removeAll index (vw_pendingRequests v)\<rparr>;
                 (v2, played) =
                   (case vw_metadata v1 of
                      Some metadata \<Rightarrow>
                        (let (v', e) = tryProgressivePlay v1
                         in (v', (if vw_onProgress v1
                                  then [OnProgress (length (vw_receivedChunks v1)) (md_totalChunks metadata)]
                                  else []) @ e))
                    | None \<Rightarrow> (v1, []))
             in (v2, played @ announceChunks v2))
      | _ \<Rightarrow> (v, []))"

definition initMediaSource :: "VideoFileViewer \<Rightarrow> effect list" where
  "initMediaSource v =
     (case (vw_videoElement v, vw_metadata v) of
        (Some element, Some metadata) \<Rightarrow>
          (if vw_onReady v then [OnReady] else []) @ [ScheduleRequestBatch]
      | _ \<Rightarrow> [])"

definition handleMetadata :: "VideoFileViewer \<Rightarrow> VideoStreamMessage \<Rightarrow> VideoFileViewer \<times> effect list" where
  "handleMetadata v message =
     (case vw_metadata v of
        Some known \<Rightarrow> (v, [])
      | None \<Rightarrow>
          (let metadata =
                 \<lparr>md_fileName = (case vm_fileName message of
                                   Some n \<Rightarrow> if n = [] then ''video'' else n | None \<Rightarrow> ''video''),
                  md_fileSize = (case vm_fileSize message of Some n \<Rightarrow> n | None \<Rightarrow> 0),
                  md_mimeType = (case vm_mimeType message of
                                   Some t \<Rightarrow> if t = [] then ''video/mp4'' else t | None \<Rightarrow> ''video/mp4''),
                  md_totalChunks = (case vm_totalChunks message of Some n \<Rightarrow> n | None \<Rightarrow> 0),
                  md_duration = vm_duration message\<rparr>;
               v1 = v\<lparr>vw_metadata := Some metadata\<rparr>
           in (v1, (if vw_onMetadata v1 then [OnMetadata metadata] else []) @ initMediaSource v1)))"

definition viewer_handleChunkRequest :: "VideoFileViewer \<Rightarrow> VideoStreamMessage \<Rightarrow> effect list" where
  "viewer_handleChunkRequest v message =
     (case vm_chunkIndex message of
        None \<Rightarrow> []
      | Some index \<Rightarrow>
          (case fmlookup (vw_chunks v) index of
             Some chunk \<Rightarrow>
               [ChannelBroadcastChunk (chunk_message (vw_myEndpointId v) index chunk) (index + 100000)]
           | None \<Rightarrow> []))"

definition handlePeerChunks :: "VideoFileViewer \<Rightarrow> VideoStreamMessage \<Rightarrow> VideoFileViewer" where
  "handlePeerChunks v message =
     (case vm_availableChunks message of
        None \<Rightarrow> v
      | Some availableChunks \<Rightarrow>
          (let peerSet = (case fmlookup (vw_peerChunks v) (vm_from message) of
                            Some known \<Rightarrow> known | None \<Rightarrow> [])
           in v\<lparr>vw_peerChunks :=
                  fmupd (vm_from message) (fold set_add availableChunks peerSet) (vw_peerChunks v)\<rparr>))"

definition viewer_handleVideoMessage :: "VideoFileViewer \<Rightarrow> VideoStreamMessage \<Rightarrow> VideoFileViewer \<times> effect list" where
  "viewer_handleVideoMessage v message =
     (if vm_from message = vw_myEndpointId v then (v, [])
      else
        (case vm_type message of
           VideoMetadataMsg \<Rightarrow> handleMetadata v message
         | VideoChunk \<Rightarrow> handleChunk v message
         | VideoRequestChunk \<Rightarrow> (v, viewer_handleChunkRequest v message)
         | VideoHaveChunks \<Rightarrow> (handlePeerChunks v message, [])
         | VideoRequestMetadata \<Rightarrow> (v, [])))"

record progress =
  received :: nat
  total :: int
  percent :: real

definition getProgress :: "VideoFileViewer \<Rightarrow> progress" where
  "getProgress v =
     (let total = (case vw_metadata v of Some metadata \<Rightarrow> md_totalChunks metadata | None \<Rightarrow> 0);
          received = length (vw_receivedChunks v)
      in \<lparr>received = received, total = total,
          percent = (if total > 0 then real received / real_of_int total * 100 else 0)\<rparr>)"

fun viewer_receive :: "VideoStreamMessage list \<Rightarrow> VideoFileViewer \<Rightarrow> VideoFileViewer" where
  "viewer_receive [] v = v"
| "viewer_receive (message # rest) v = viewer_receive rest (fst (viewer_handleVideoMessage v message))"

subsection \<open>Notions used to state the file-exchange properties\<close>

definition out_of_range_chunk :: "VideoFileViewer \<Rightarrow> VideoStreamMessage \<Rightarrow> bool" where
  \<comment> \<open>a chunk message from another peer whose index is outside \<open>0..totalChunks-1\<close>\<close>
  "out_of_range_chunk v message \<longleftrightarrow>
     vm_type message = VideoChunk \<and> vm_from message \<noteq> vw_myEndpointId v
     \<and> vm_chunkData message \<noteq> None
     \<and> (case vm_chunkIndex message of
          Some index \<Rightarrow> index < 0 \<or> index \<ge> total (getProgress v)
        | None \<Rightarrow> False)"

section \<open>Example data\<close>

definition example_engine :: engine where
  "example_engine = \<lparr>createOffer = (\<lambda>c. ''offer-sdp''), createAnswer = (\<lambda>c. ''answer-sdp'')\<rparr>"

definition example_session :: LiveStreaming where
  "example_session =
     \<lparr>ls_myEndpointId = ''me'', streamChannel = Some [], mediaStream = None,
      peerConnections = fmempty, pendingIceCandidates = fmempty\<rparr>"

definition signal_from :: "signal_type \<Rightarrow> string \<Rightarrow> string option \<Rightarrow> candidate option \<Rightarrow> WebRTCSignal" where
  "signal_from t sender sdp cand =
     \<lparr>sig_type = t, sig_from = sender, sig_to = Some ''me'', sig_sdp = sdp, sig_candidate = cand\<rparr>"

definition example_async_session :: AsyncSession where
  \<comment> \<open>\<open>example_session\<close> with no invocation under way\<close>
  "example_async_session =
     \<lparr>as_myEndpointId = ''me'', as_streamChannel = Some [], as_mediaStream = None,
      as_connections = [], as_peerConnections = fmempty, as_arrays = [],
      as_pendingIceCandidates = fmempty, as_suspended = []\<rparr>"

definition unprepared_broadcaster :: VideoFileBroadcaster where
  \<comment> \<open>a broadcaster as constructed, its observer set, before \<open>prepare\<close> has run\<close>
  "unprepared_broadcaster =
     (new_VideoFileBroadcaster
        \<lparr>file_name = ''clip.mp4'', file_type = ''video/mp4'', file_data = [1, 2, 3]\<rparr> ''me'')
       \<lparr>bc_onPeerRequest := True\<rparr>"

definition example_broadcaster :: VideoFileBroadcaster where
  "example_broadcaster = prepare unprepared_broadcaster"

definition example_viewer :: VideoFileViewer where
  "example_viewer =
     \<lparr>vw_myEndpointId = ''viewer'',
      vw_metadata = Some \<lparr>md_fileName = ''clip.mp4'', md_fileSize = 100000,
                          md_mimeType = ''video/mp4'', md_totalChunks = 2, md_duration = None\<rparr>,
      vw_chunks = fmempty, vw_receivedChunks = [], vw_pendingRequests = [],
      vw_videoElement = Some \<lparr>ve_src = None\<rparr>, vw_lastAppendedIndex = - 1,
      vw_peerChunks = fmempty, vw_onMetadata = False, vw_onProgress = True, vw_onReady = False\<rparr>"

section \<open>Properties of the fragmenter\<close>

lemma js_rem_nonneg: "0 \<le> a \<Longrightarrow> 0 < b \<Longrightarrow> js_rem a b = a mod b"
  by (simp add: js_rem_def sgn_if)

lemma decode_part_seq_aux:
  fixes f p t :: int
  assumes "0 \<le> f" "0 \<le> p" "p < 100" "0 \<le> t" "t < 100"
  shows "decode_sequence (f * 10000 + p + t * 100) = (f, p, t)"
proof -
  let ?s = "f * 10000 + p + t * 100"
  have r: "0 \<le> p + t * 100" "p + t * 100 < 10000" using assms by auto
  have nn: "0 \<le> ?s" using assms by auto
  have d: "?s div 10000 = f" using r by (simp add: div_pos_pos_trivial add.assoc)
  have m: "?s mod 10000 = p + t * 100" using r by (simp add: mod_pos_pos_trivial add.assoc)
  have pm: "(p + t * 100) mod 100 = p" using assms by simp
  have pd: "(p + t * 100) div 100 = t" using assms by simp
  show ?thesis
    using nn r d m pm pd by (simp add: decode_sequence_def js_rem_nonneg Let_def)
qed

text \<open>
  C2. Decoding a packed tag recovers the triple that was packed: for
  \<open>0 \<le> partNumber < 100\<close>, \<open>0 \<le> totalParts < 100\<close> and \<open>frameNumber \<ge> 0\<close>, the tag
  \<open>frameNumber * 10000 + partNumber + totalParts * 100\<close> of a multi-part send decodes to
  \<open>(frameNumber, partNumber, totalParts)\<close>, and the tag \<open>frameNumber * 10000\<close> of a
  single-part send decodes to \<open>(frameNumber, 0, 0)\<close>.
\<close>

theorem tag_packing_invertible:
  assumes "0 \<le> frameNumber" "partNumber < 100" "totalParts < 100"
  shows "decode_sequence (part_seq frameNumber partNumber totalParts)
           = (frameNumber, int partNumber, int totalParts)
         \<and> decode_sequence (single_seq frameNumber) = (frameNumber, 0, 0)"
proof -
  have "decode_sequence (frameNumber * 10000 + int partNumber + int totalParts * 100)
          = (frameNumber, int partNumber, int totalParts)"
    using assms by (intro decode_part_seq_aux) auto
  moreover have "decode_sequence (frameNumber * 10000 + 0 + 0 * 100) = (frameNumber, 0, 0)"
    using assms by (intro decode_part_seq_aux) auto
  ultimately show ?thesis by (simp add: part_seq_def single_seq_def)
qed

theorem tag_packing_invertible_witness:
  "(0::int) \<le> 7 \<and> (2::nat) < 100 \<and> (3::nat) < 100
   \<and> decode_sequence (part_seq 7 2 3) = (7, 2, 3)
   \<and> part_seq 7 2 3 = 70302
   \<and> decode_sequence (single_seq 7) = (7, 0, 0)"
  using tag_packing_invertible [of 7 2 3] by (simp add: part_seq_def)

subsection \<open>Splitting and reassembly\<close>

lemma fcard_fmdom: "fcard (fmdom C) = card (fmdom' C)"
  by (simp add: fcard.rep_eq fmdom'_alt_def)

lemma broadcast_parts_eq:
  "broadcast_parts data sequence totalParts i =
     map (\<lambda>k. (slice data (k * MAX_CHUNK_SIZE) (min (k * MAX_CHUNK_SIZE + MAX_CHUNK_SIZE) (length data)),
               part_seq sequence k totalParts)) [i..<totalParts]"
proof (induction data sequence totalParts i rule: broadcast_parts.induct)
  case (1 data sequence totalParts i)
  show ?case
  proof (cases "i < totalParts")
    case True
    then show ?thesis
      using "1.IH" [OF True refl refl refl refl]
      by (subst broadcast_parts.simps) (simp add: Let_def upt_conv_Cons)
  next
    case False
    then show ?thesis by (subst broadcast_parts.simps) simp
  qed
qed

lemma slice_take: "slice data (k * m) (min (k * m + m) (length data)) = take m (drop (k * m) data)"
  by (simp add: slice_def min_def)

lemma concat_takes: "concat (map (\<lambda>k. take m (drop (k * m) data)) [0..<n]) = take (n * m) data"
proof (induction n)
  case 0
  then show ?case by simp
next
  case (Suc n)
  have "take (n * m + m) data = take (n * m) data @ take m (drop (n * m) data)"
    by (rule take_add)
  then have "take (Suc n * m) data = take (n * m) data @ take m (drop (n * m) data)"
    by (simp only: mult_Suc add.commute)
  with Suc show ?case by simp
qed

lemma ceil_div_ge: "0 < m \<Longrightarrow> a \<le> ceil_div a m * m"
proof -
  assume m: "0 < m"
  have "a + m - 1 = (a + m - 1) div m * m + (a + m - 1) mod m" by simp
  moreover have "(a + m - 1) mod m \<le> m - 1" using m
    by (metis Suc_pred' less_Suc_eq_le mod_less_divisor)
  ultimately have "a + m - 1 \<le> (a + m - 1) div m * m + (m - 1)" by linarith
  then show ?thesis using m by (simp add: ceil_div_def)
qed

lemma collect_parts_all:
  assumes "\<forall>k. 0 \<le> k \<and> k < T \<longrightarrow> fmlookup C k = Some (P k)" "0 \<le> j" "j \<le> T"
  shows "collect_parts C T j acc = Some (acc @ map (\<lambda>k. P (int k)) [nat j..<nat T])"
  using assms
proof (induction C T j acc rule: collect_parts.induct)
  case (1 chunks totalParts i parts)
  show ?case
  proof (cases "i < totalParts")
    case True
    have l: "fmlookup chunks i = Some (P i)" using 1 True by simp
    have n: "nat (i + 1) = Suc (nat i)" using 1 by simp
    have "[nat i..<nat totalParts] = nat i # [Suc (nat i)..<nat totalParts]"
      using True 1 by (simp add: upt_conv_Cons)
    then show ?thesis
      using "1.IH" [OF True l] True l 1 n
      by (subst collect_parts.simps) simp
  next
    case False
    then show ?thesis using 1 by (subst collect_parts.simps) simp
  qed
qed

lemma decode_multi_tag:
  assumes "0 \<le> f" "0 \<le> i" "i < 100" "0 \<le> T" "T < 100"
  shows "decode_sequence (multi_tag f i T) = (f, i, T)"
  unfolding multi_tag_def using assms by (rule decode_part_seq_aux)

lemma handle_part_incomplete:
  assumes T: "2 \<le> T" "T < 100" and f: "0 \<le> f" and i: "0 \<le> i" "i < T"
    and e: "ev_data e = Some d" "ev_sequence e = Some (multi_tag f i T)"
    and st: "frame_state pend f T C"
    and c: "int (card (fmdom' (fmupd i d C))) < T"
  shows "fst (handleChunkedMedia now e pend) = None
         \<and> frame_state (snd (handleChunkedMedia now e pend)) f T (fmupd i d C)"
proof -
  have dec: "decode_sequence (multi_tag f i T) = (f, i, T)"
    using T f i by (intro decode_multi_tag) auto
  from st show ?thesis unfolding frame_state_def
  proof
    assume a: "fmlookup pend f = None \<and> C = fmempty"
    then have nd: "f |\<notin>| fmdom pend" by (simp add: fmdom_notI)
    show "fst (handleChunkedMedia now e pend) = None \<and>
      (fmlookup (snd (handleChunkedMedia now e pend)) f = None \<and> fmupd i d C = fmempty \<or>
      (\<exists>p. fmlookup (snd (handleChunkedMedia now e pend)) f = Some p \<and> pf_chunks p = fmupd i d C \<and> pf_totalParts p = T))"
      using a nd T c e dec
      by (simp add: handleChunkedMedia_def Let_def fcard_fmdom)
  next
    assume "\<exists>p. fmlookup pend f = Some p \<and> pf_chunks p = C \<and> pf_totalParts p = T"
    then obtain p where p: "fmlookup pend f = Some p" "pf_chunks p = C" "pf_totalParts p = T" by blast
    then have d: "f |\<in>| fmdom pend" by (simp add: fmdomI)
    show "fst (handleChunkedMedia now e pend) = None \<and>
      (fmlookup (snd (handleChunkedMedia now e pend)) f = None \<and> fmupd i d C = fmempty \<or>
      (\<exists>p. fmlookup (snd (handleChunkedMedia now e pend)) f = Some p \<and> pf_chunks p = fmupd i d C \<and> pf_totalParts p = T))"
      using p d T c e dec
      by (simp add: handleChunkedMedia_def Let_def fcard_fmdom)
  qed
qed

lemma handle_part_complete:
  assumes T: "2 \<le> T" "T < 100" and f: "0 \<le> f" and i: "0 \<le> i" "i < T"
    and e: "ev_data e = Some d" "ev_sequence e = Some (multi_tag f i T)"
    and st: "frame_state pend f T C"
    and c: "T \<le> int (card (fmdom' (fmupd i d C)))"
    and cp: "collect_parts (fmupd i d C) T 0 [] = Some parts"
  shows "handleChunkedMedia now e pend = (Some (concat parts), drop_stale now (fmdrop f pend))"
proof -
  have dec: "decode_sequence (multi_tag f i T) = (f, i, T)"
    using T f i by (intro decode_multi_tag) auto
  from st show ?thesis unfolding frame_state_def
  proof
    assume a: "fmlookup pend f = None \<and> C = fmempty"
    then have nd: "f |\<notin>| fmdom pend" by (simp add: fmdom_notI)
    show ?thesis
      using a nd T c e dec cp
      by (simp add: handleChunkedMedia_def Let_def fcard_fmdom fmdrop_fmupd_same)
  next
    assume "\<exists>p. fmlookup pend f = Some p \<and> pf_chunks p = C \<and> pf_totalParts p = T"
    then obtain p where p: "fmlookup pend f = Some p" "pf_chunks p = C" "pf_totalParts p = T" by blast
    then have d: "f |\<in>| fmdom pend" by (simp add: fmdomI)
    show ?thesis
      using p d T c e dec cp
      by (simp add: handleChunkedMedia_def Let_def fcard_fmdom fmdrop_fmupd_same)
  qed
qed

lemma drop_stale_lookup_None: "fmlookup m f = None \<Longrightarrow> fmlookup (drop_stale now m) f = None"
  by (simp add: drop_stale_def)

lemma multi_tag_inj: "multi_tag f i T = multi_tag f j T \<longleftrightarrow> i = j"
  by (simp add: multi_tag_def)

lemma full_domain:
  assumes "\<forall>k \<in> D. 0 \<le> k \<and> k < T" "int (card D) = T"
  shows "D = {0..<T}"
proof -
  have "D \<subseteq> {0..<T}" using assms(1) by auto
  moreover have "card {0..<T} = card D" using assms(2) by simp
  ultimately show ?thesis by (simp add: card_subset_eq)
qed

lemma deliver_parts:
  assumes T: "2 \<le> T" "T < 100" and f: "0 \<le> f"
  shows "evs \<noteq> [] \<Longrightarrow> frame_state pend f T C \<Longrightarrow>
     (\<forall>k \<in> fmdom' C. 0 \<le> k \<and> k < T \<and> fmlookup C k = Some (P k)) \<Longrightarrow>
     (\<forall>(now, e) \<in> set evs. \<exists>i. 0 \<le> i \<and> i < T \<and> i \<notin> fmdom' C
          \<and> ev_data e = Some (P i) \<and> ev_sequence e = Some (multi_tag f i T)) \<Longrightarrow>
     distinct (map (\<lambda>(now, e). ev_sequence e) evs) \<Longrightarrow>
     int (card (fmdom' C)) + int (length evs) = T \<Longrightarrow>
     fst (deliver evs pend) = [concat (map (\<lambda>k. P (int k)) [0..<nat T])]
     \<and> fmlookup (snd (deliver evs pend)) f = None"
proof (induction evs arbitrary: pend C)
  case Nil
  then show ?case by simp
next
  case (Cons x rest)
  obtain now e where x: "x = (now, e)" by (cases x)
  from Cons.prems(4) x obtain i where i: "0 \<le> i" "i < T" "i \<notin> fmdom' C"
      "ev_data e = Some (P i)" "ev_sequence e = Some (multi_tag f i T)"
    by auto
  let ?C = "fmupd i (P i) C"
  have card': "card (fmdom' ?C) = Suc (card (fmdom' C))" using i(3) by simp
  have content': "\<forall>k \<in> fmdom' ?C. 0 \<le> k \<and> k < T \<and> fmlookup ?C k = Some (P k)"
    using Cons.prems(3) i by auto
  show ?case
  proof (cases "rest = []")
    case True
    then have full: "int (card (fmdom' ?C)) = T" using Cons.prems(6) card' by simp
    have "fmdom' ?C = {0..<T}" using content' full by (intro full_domain) auto
    then have "\<forall>k. 0 \<le> k \<and> k < T \<longrightarrow> fmlookup ?C k = Some (P k)"
      using content' by auto
    then have cp: "collect_parts ?C T 0 [] = Some ([] @ map (\<lambda>k. P (int k)) [nat 0..<nat T])"
      using T by (intro collect_parts_all) auto
    have "handleChunkedMedia now e pend
            = (Some (concat ([] @ map (\<lambda>k. P (int k)) [nat 0..<nat T])), drop_stale now (fmdrop f pend))"
      using T f i Cons.prems(2) full cp
      by (intro handle_part_complete [where i = i and C = C]) auto
    then show ?thesis using True x by (simp add: drop_stale_lookup_None)
  next
    case False
    then have less: "int (card (fmdom' ?C)) < T" using Cons.prems(6) card' by (cases rest) auto
    have step: "fst (handleChunkedMedia now e pend) = None
         \<and> frame_state (snd (handleChunkedMedia now e pend)) f T ?C"
      using T f i Cons.prems(2) less
      by (intro handle_part_incomplete) auto
    obtain pend' where h: "handleChunkedMedia now e pend = (None, pend')"
      using step by (cases "handleChunkedMedia now e pend") auto
    then have fs: "frame_state pend' f T ?C" using step by simp
    have evs': "\<forall>(now, e) \<in> set rest. \<exists>j. 0 \<le> j \<and> j < T \<and> j \<notin> fmdom' ?C
          \<and> ev_data e = Some (P j) \<and> ev_sequence e = Some (multi_tag f j T)"
    proof (clarify)
      fix now' e' assume m: "(now', e') \<in> set rest"
      then obtain j where j: "0 \<le> j" "j < T" "j \<notin> fmdom' C"
          "ev_data e' = Some (P j)" "ev_sequence e' = Some (multi_tag f j T)"
        using Cons.prems(4) by fastforce
      have "ev_sequence e' \<noteq> ev_sequence e"
        using Cons.prems(5) m x by (force simp: image_iff)
      then have "j \<noteq> i" using i(5) j(5) by auto
      then show "\<exists>j. 0 \<le> j \<and> j < T \<and> j \<notin> fmdom' ?C
          \<and> ev_data e' = Some (P j) \<and> ev_sequence e' = Some (multi_tag f j T)"
        using j by auto
    qed
    have "fst (deliver rest pend') = [concat (map (\<lambda>k. P (int k)) [0..<nat T])]
     \<and> fmlookup (snd (deliver rest pend')) f = None"
      using False fs content' evs' Cons.prems(5) Cons.prems(6) card'
      by (intro Cons.IH [where C = ?C]) auto
    then show ?thesis using h x by simp
  qed
qed

lemma ceil_div_bounds:
  assumes "MAX_CHUNK_SIZE < n" "n \<le> 99 * MAX_CHUNK_SIZE"
  shows "2 \<le> ceil_div n MAX_CHUNK_SIZE \<and> ceil_div n MAX_CHUNK_SIZE \<le> 99"
proof -
  have p: "0 < MAX_CHUNK_SIZE" by (simp add: MAX_CHUNK_SIZE_def)
  have "2 * MAX_CHUNK_SIZE \<le> n + MAX_CHUNK_SIZE - 1" using assms by simp
  then have a: "2 \<le> (n + MAX_CHUNK_SIZE - 1) div MAX_CHUNK_SIZE"
    using p by (simp add: less_eq_div_iff_mult_less_eq)
  have "n + MAX_CHUNK_SIZE - 1 < 100 * MAX_CHUNK_SIZE" using assms p by simp
  then have "(n + MAX_CHUNK_SIZE - 1) div MAX_CHUNK_SIZE < 100"
    using p by (simp add: div_less_iff_less_mult)
  with a show ?thesis by (simp add: ceil_div_def)
qed

lemma broadcastChunk_multi:
  assumes "MAX_CHUNK_SIZE < length data"
  shows "broadcastChunk data f =
     map (\<lambda>k. (take MAX_CHUNK_SIZE (drop (k * MAX_CHUNK_SIZE) data),
               multi_tag f (int k) (int (ceil_div (length data) MAX_CHUNK_SIZE))))
         [0..<ceil_div (length data) MAX_CHUNK_SIZE]"
  using assms
  by (simp add: broadcastChunk_def Let_def broadcast_parts_eq slice_take multi_tag_def part_seq_def)

lemma deliver_single:
  assumes "0 \<le> f" "carries evs [(data, single_seq f)]"
  shows "deliver evs pend = ([data], pend)"
proof -
  have "length (map (\<lambda>(now, e). (ev_data e, ev_sequence e)) evs)
          = length (map (\<lambda>(d, s). (Some d, Some s)) [(data, single_seq f)])"
    using assms(2) unfolding carries_def by (rule mset_eq_length)
  then have "length evs = 1" by simp
  then obtain now e where evs: "evs = [(now, e)]"
    by (cases evs) auto
  then have e: "ev_data e = Some data" "ev_sequence e = Some (single_seq f)"
    using assms(2) by (auto simp: carries_def)
  have "decode_sequence (f * 10000 + 0 + 0 * 100) = (f, 0, 0)"
    using assms(1) by (intro decode_part_seq_aux) auto
  then have "decode_sequence (single_seq f) = (f, 0, 0)" by (simp add: single_seq_def)
  then have "handleChunkedMedia now e pend = (Some data, pend)"
    using e by (simp add: handleChunkedMedia_def)
  then show ?thesis using evs by simp
qed

lemma deliver_append:
  "deliver (xs @ ys) pend =
     (fst (deliver xs pend) @ fst (deliver ys (snd (deliver xs pend))),
      snd (deliver ys (snd (deliver xs pend))))"
  by (induction xs pend rule: deliver.induct) (auto split: prod.splits option.splits)

lemma deliver_multi:
  assumes len: "MAX_CHUNK_SIZE < length data" "length data \<le> 99 * MAX_CHUNK_SIZE"
    and f: "0 \<le> f" and pend: "fmlookup pend f = None"
    and c: "carries evs (broadcastChunk data f)"
  shows "fst (deliver evs pend) = [data] \<and> fmlookup (snd (deliver evs pend)) f = None"
proof -
  define n where "n = ceil_div (length data) MAX_CHUNK_SIZE"
  define T where "T = int n"
  define P where "P = (\<lambda>i. take MAX_CHUNK_SIZE (drop (nat i * MAX_CHUNK_SIZE) data))"
  define parts where "parts = map (\<lambda>k. (Some (P (int k)), Some (multi_tag f (int k) T))) [0..<n]"
  define w where "w = (\<lambda>x :: int \<times> StreamEvent. (ev_data (snd x), ev_sequence (snd x)))"
  have T: "2 \<le> T" "T < 100" using ceil_div_bounds [OF len] by (auto simp: T_def n_def)
  have bc: "map (\<lambda>(d, s). (Some d, Some s)) (broadcastChunk data f) = parts"
    by (simp add: broadcastChunk_multi [OF len(1)] parts_def P_def T_def n_def comp_def)
  have w: "(\<lambda>(now, e). (ev_data e, ev_sequence e)) = w"
    by (simp add: w_def fun_eq_iff)
  have m: "mset (map w evs) = mset parts"
    using c unfolding carries_def bc w .
  have l: "length evs = n"
    using mset_eq_length [OF m] by (simp add: parts_def)
  have ne: "evs \<noteq> []" using l T by (auto simp: T_def)
  have s: "set (map w evs) = set parts"
    using m by (rule mset_eq_setD)
  have evs: "\<forall>(now, e) \<in> set evs. \<exists>i. 0 \<le> i \<and> i < T \<and> i \<notin> fmdom' fmempty
          \<and> ev_data e = Some (P i) \<and> ev_sequence e = Some (multi_tag f i T)"
  proof (clarify)
    fix now e assume "(now, e) \<in> set evs"
    then have "w (now, e) \<in> set (map w evs)" by simp
    then have "(ev_data e, ev_sequence e) \<in> set parts" unfolding s by (simp add: w_def)
    then obtain k where "k < n" "ev_data e = Some (P (int k))"
       "ev_sequence e = Some (multi_tag f (int k) T)" unfolding parts_def by auto
    then show "\<exists>i. 0 \<le> i \<and> i < T \<and> i \<notin> fmdom' fmempty
          \<and> ev_data e = Some (P i) \<and> ev_sequence e = Some (multi_tag f i T)"
      by (intro exI [of _ "int k"]) (simp add: T_def)
  qed
  have "image_mset snd (mset (map w evs)) = image_mset snd (mset parts)"
    by (rule arg_cong [OF m])
  then have "mset (map (\<lambda>x. snd (w x)) evs) = mset (map snd parts)"
    by (simp add: multiset.map_comp comp_def)
  moreover have "map snd parts = map (\<lambda>k. Some (multi_tag f (int k) T)) [0..<n]"
    by (simp add: parts_def)
  moreover have "(\<lambda>x. snd (w x)) = (\<lambda>(now, e). ev_sequence e)"
    by (simp add: w_def fun_eq_iff)
  ultimately have ms: "mset (map (\<lambda>(now, e). ev_sequence e) evs)
               = mset (map (\<lambda>k. Some (multi_tag f (int k) T)) [0..<n])"
    by simp
  have "distinct (map (\<lambda>k. Some (multi_tag f (int k) T)) [0..<n])"
    by (simp add: distinct_map inj_on_def multi_tag_inj)
  then have d: "distinct (map (\<lambda>(now, e). ev_sequence e) evs)"
    using mset_eq_imp_distinct_iff [OF ms] by simp
  have fs: "frame_state pend f T fmempty" using pend by (simp add: frame_state_def)
  have cnt: "int (card (fmdom' (fmempty :: (int, bytes) fmap))) + int (length evs) = T"
    using l by (simp add: T_def)
  have cont: "\<forall>k \<in> fmdom' (fmempty :: (int, bytes) fmap). 0 \<le> k \<and> k < T \<and> fmlookup fmempty k = Some (P k)"
    by simp
  have r: "fst (deliver evs pend) = [concat (map (\<lambda>k. P (int k)) [0..<nat T])]
     \<and> fmlookup (snd (deliver evs pend)) f = None"
    using T f ne fs cont evs d cnt by (rule deliver_parts)
  have "concat (map (\<lambda>k. P (int k)) [0..<nat T]) = take (n * MAX_CHUNK_SIZE) data"
    by (simp add: concat_takes P_def T_def)
  moreover have "length data \<le> n * MAX_CHUNK_SIZE"
    unfolding n_def by (intro ceil_div_ge) (simp add: MAX_CHUNK_SIZE_def)
  ultimately show ?thesis using r by simp
qed

lemma deliver_Cons_Some:
  "handleChunkedMedia now e pend = (Some d, pend') \<Longrightarrow>
     fst (deliver ((now, e) # rest) pend) = d # fst (deliver rest pend')"
  by (simp split: prod.splits)

lemma decode_10000: "decode_sequence 10000 = (1, 0, 0)"
  by (simp add: decode_sequence_def js_rem_def)

lemma ceil_100: "ceil_div 5575681 MAX_CHUNK_SIZE = 100"
  by (simp add: ceil_div_def MAX_CHUNK_SIZE_def)

lemma bc100: "broadcastChunk (replicate 5575681 (0::byte)) 0 =
   (replicate 56320 0, 10000) # map (\<lambda>k. (take MAX_CHUNK_SIZE (drop (k * MAX_CHUNK_SIZE) (replicate 5575681 0)),
               multi_tag 0 (int k) 100)) [1..<100]"
proof -
  have u: "[0..<100] = 0 # [1..<100]" by (simp add: upt_conv_Cons)
  have l: "MAX_CHUNK_SIZE < length (replicate 5575681 (0::byte))" by (simp add: MAX_CHUNK_SIZE_def)
  have h: "take MAX_CHUNK_SIZE (replicate 5575681 (0::byte)) = replicate 56320 0"
    by (simp add: MAX_CHUNK_SIZE_def)
  show ?thesis
    unfolding broadcastChunk_multi [OF l] length_replicate ceil_100 u
    by (simp add: multi_tag_def MAX_CHUNK_SIZE_def)
qed

subsection \<open>Round trip\<close>

text \<open>
  C1 (as amended). Round trip: for every payload of at most \<open>99 * MAX_CHUNK_SIZE\<close>
  (5,575,680) bytes and every valid frame number (not negative, and small enough that
  \<open>frameNumber * 10000 + 9999\<close> is at most \<open>2^53 - 1\<close>, so that the source computes
  every tag exactly) with no pending frame of that number, the sends made by
  \<open>broadcastChunk\<close>, delivered each once in any order (with any sender, timestamps and
  clock readings), make the reassembler emit exactly one buffer, equal to the payload.
\<close>

theorem roundtrip_any_order:
  assumes "length payload \<le> 99 * MAX_CHUNK_SIZE" "valid_frameNumber frameNumber"
    and "fmlookup pending frameNumber = None"
    and "carries evs (broadcastChunk payload frameNumber)"
  shows "fst (deliver evs pending) = [payload]"
proof (cases "length payload \<le> MAX_CHUNK_SIZE")
  case True
  have f: "0 \<le> frameNumber" using assms(2) by (simp add: valid_frameNumber_def)
  have "carries evs [(payload, single_seq frameNumber)]"
    using True assms(4) by (simp add: broadcastChunk_def)
  then show ?thesis using f by (simp add: deliver_single)
next
  case False
  have f: "0 \<le> frameNumber" using assms(2) by (simp add: valid_frameNumber_def)
  show ?thesis
    using False assms(1,3,4) f deliver_multi [of payload frameNumber pending evs] by simp
qed

lemma bc2: "broadcastChunk (replicate 56321 (0::byte)) 7 = [(replicate 56320 0, 70200), (replicate 1 0, 70201)]"
proof -
  have l: "MAX_CHUNK_SIZE < length (replicate 56321 (0::byte))" by (simp add: MAX_CHUNK_SIZE_def)
  have c: "ceil_div 56321 MAX_CHUNK_SIZE = 2" by (simp add: ceil_div_def MAX_CHUNK_SIZE_def)
  have u: "[0..<2] = [0, 1]" by (simp add: upt_conv_Cons)
  show ?thesis
    unfolding broadcastChunk_multi [OF l] length_replicate c u
    by (simp add: multi_tag_def MAX_CHUNK_SIZE_def)
qed

theorem roundtrip_any_order_witness:
  "length (replicate 56321 (0::byte)) \<le> 99 * MAX_CHUNK_SIZE \<and> valid_frameNumber 7
   \<and> fmlookup (fmempty :: pendingChunks) 7 = None
   \<and> carries (arrivals 5 [(replicate 1 0, 70201), (replicate 56320 0, 70200)])
        (broadcastChunk (replicate 56321 0) 7)
   \<and> fst (deliver (arrivals 5 [(replicate 1 0, 70201), (replicate 56320 0, 70200)]) fmempty)
       = [replicate 56321 0]"
proof -
  have c: "carries (arrivals 5 [(replicate 1 0, 70201), (replicate 56320 0, 70200)])
        (broadcastChunk (replicate 56321 0) 7)"
    unfolding bc2 by (simp add: carries_def)
  have l: "length (replicate 56321 (0::byte)) \<le> 99 * MAX_CHUNK_SIZE" by (simp add: MAX_CHUNK_SIZE_def)
  have v: "valid_frameNumber 7" by (simp add: valid_frameNumber_def MAX_SAFE_INTEGER_def)
  show ?thesis
    using roundtrip_any_order [of "replicate 56321 0" 7 fmempty
        "arrivals 5 [(replicate 1 0, 70201), (replicate 56320 0, 70200)]"] c l v
    by simp
qed

text \<open>
  The bound of C1 as stated, 10,000,000 bytes, is too large: a payload of 5,575,681 bytes
  is cut into 100 parts, the tag of its part 0 is \<open>10000\<close>, which decodes to a
  single-part frame 1, and that part alone is emitted as if it were a whole payload.
\<close>

theorem roundtrip_counterexample:
  "length (replicate 5575681 (0::byte)) \<le> 10000000 \<and> valid_frameNumber 0
   \<and> fst (deliver (arrivals 0 (broadcastChunk (replicate 5575681 (0::byte)) 0)) fmempty)
       \<noteq> [replicate 5575681 0]"
proof -
  have "handleChunkedMedia 0 \<lparr>ev_from = None, ev_data = Some (replicate 56320 (0::byte)), ev_sequence = Some 10000, ev_timestamp = None\<rparr> fmempty
     = (Some (replicate 56320 0), fmempty)"
    by (simp add: handleChunkedMedia_def decode_10000)
  then have "hd (fst (deliver (arrivals 0 (broadcastChunk (replicate 5575681 (0::byte)) 0)) fmempty)) = replicate 56320 0"
    unfolding bc100 arrivals.simps by (simp only: deliver_Cons_Some list.sel)
  moreover have "replicate 56320 (0::byte) \<noteq> replicate 5575681 0"
    by (simp add: replicate_eq_replicate)
  moreover have "valid_frameNumber 0"
    by (simp add: valid_frameNumber_def MAX_SAFE_INTEGER_def)
  ultimately show ?thesis by auto
qed

subsection \<open>No limit on the number of parts\<close>

text \<open>
  C3 (as amended). \<open>broadcastChunk\<close> makes no check on the number of parts and rejects
  no payload: every payload longer than \<open>MAX_CHUNK_SIZE\<close>, also one longer than
  \<open>99 * MAX_CHUNK_SIZE\<close>, is cut into \<open>ceil(length / MAX_CHUNK_SIZE)\<close> consecutive
  slices of at most \<open>MAX_CHUNK_SIZE\<close> bytes, whose concatenation is the payload, and
  every slice is handed to the send operation, in order.
\<close>

theorem broadcastChunk_never_rejects:
  assumes "MAX_CHUNK_SIZE < length data"
  shows "length (broadcastChunk data sequence) = ceil_div (length data) MAX_CHUNK_SIZE
         \<and> concat (map fst (broadcastChunk data sequence)) = data
         \<and> list_all (\<lambda>c. length (fst c) \<le> MAX_CHUNK_SIZE) (broadcastChunk data sequence)"
proof -
  let ?n = "ceil_div (length data) MAX_CHUNK_SIZE"
  have b: "broadcastChunk data sequence =
     map (\<lambda>k. (take MAX_CHUNK_SIZE (drop (k * MAX_CHUNK_SIZE) data), multi_tag sequence (int k) (int ?n)))
         [0..<?n]"
    using assms by (rule broadcastChunk_multi)
  have "concat (map fst (broadcastChunk data sequence)) = take (?n * MAX_CHUNK_SIZE) data"
    unfolding b by (simp add: comp_def concat_takes)
  moreover have "length data \<le> ?n * MAX_CHUNK_SIZE"
    by (intro ceil_div_ge) (simp add: MAX_CHUNK_SIZE_def)
  ultimately have c: "concat (map fst (broadcastChunk data sequence)) = data" by simp
  have l: "length (broadcastChunk data sequence) = ?n" unfolding b by simp
  have a: "list_all (\<lambda>c. length (fst c) \<le> MAX_CHUNK_SIZE) (broadcastChunk data sequence)"
    unfolding b by (simp add: list_all_iff)
  from l c a show ?thesis by simp
qed

theorem broadcastChunk_never_rejects_witness:
  "MAX_CHUNK_SIZE < length (replicate 5575681 (0::byte))
   \<and> 99 * MAX_CHUNK_SIZE < length (replicate 5575681 (0::byte))
   \<and> length (broadcastChunk (replicate 5575681 (0::byte)) 0) = 100
   \<and> concat (map fst (broadcastChunk (replicate 5575681 (0::byte)) 0)) = replicate 5575681 0"
proof -
  have l: "MAX_CHUNK_SIZE < length (replicate 5575681 (0::byte))"
      "99 * MAX_CHUNK_SIZE < length (replicate 5575681 (0::byte))"
    by (simp_all add: MAX_CHUNK_SIZE_def)
  have c: "ceil_div (length (replicate 5575681 (0::byte))) MAX_CHUNK_SIZE = 100"
    by (simp add: ceil_100)
  show ?thesis
    using broadcastChunk_never_rejects [OF l(1), of 0] l
    by (simp only: c)
qed

text \<open>
  C3 as stated fails: a payload of 5,575,681 bytes, more than \<open>99 * MAX_CHUNK_SIZE\<close>,
  sent as frame 0 is handed to the send operation in 100 parts, the first with the tag
  \<open>10000\<close>, which the receiver decodes as frame 1, part 0, \<open>totalParts = 0\<close>.
\<close>

theorem oversized_payload_counterexample:
  "99 * MAX_CHUNK_SIZE < length (replicate 5575681 (0::byte))
   \<and> length (broadcastChunk (replicate 5575681 (0::byte)) 0) = 100
   \<and> hd (broadcastChunk (replicate 5575681 (0::byte)) 0) = (replicate 56320 0, 10000)
   \<and> decode_sequence 10000 = (1, 0, 0)"
  unfolding bc100 by (simp add: decode_10000 MAX_CHUNK_SIZE_def)

subsection \<open>Staleness\<close>

text \<open>
  C4 (as amended). Stale frames are swept only when a multi-part frame is reassembled:
  an inbound part of frame \<open>frameNumber\<close> changes another pending frame \<open>fn\<close> only if
  the call returns a reassembled multi-part buffer, and then \<open>fn\<close> is removed exactly
  when its timestamp is more than 5000 ms before the clock reading. Whether a buffer is
  returned does not depend on the clock reading: the age of the frame being completed is
  never checked.
\<close>

theorem staleness_sweep:
  assumes "ev_data event = Some data" "ev_sequence event = Some sequence"
    and "decode_sequence sequence = (frameNumber, partNumber, totalParts)"
    and "fn \<noteq> frameNumber"
  shows "fmlookup (snd (handleChunkedMedia now event pending)) fn =
           (if fst (handleChunkedMedia now event pending) \<noteq> None
               \<and> \<not> (totalParts \<le> 1 \<and> partNumber = 0)
            then (case fmlookup pending fn of
                    Some p \<Rightarrow> if now - pf_timestamp p > 5000 then None else Some p
                  | None \<Rightarrow> None)
            else fmlookup pending fn)
         \<and> fst (handleChunkedMedia now' event pending) = fst (handleChunkedMedia now event pending)"
  using assms
  by (auto simp: handleChunkedMedia_def Let_def drop_stale_def split: option.splits)

theorem staleness_sweep_witness:
  "ev_data \<lparr>ev_from = None, ev_data = Some [2], ev_sequence = Some 201, ev_timestamp = None\<rparr> = Some [2]
   \<and> ev_sequence \<lparr>ev_from = None, ev_data = Some [2], ev_sequence = Some 201, ev_timestamp = None\<rparr> = Some 201
   \<and> decode_sequence 201 = (0, 1, 2)
   \<and> (5::int) \<noteq> 0
   \<and> fst (handleChunkedMedia 10000 \<lparr>ev_from = None, ev_data = Some [2], ev_sequence = Some 201, ev_timestamp = None\<rparr>
        (fmupd 5 \<lparr>pf_chunks = fmupd 0 [9] fmempty, pf_totalParts = 2, pf_from = ''a'', pf_timestamp = 1000\<rparr>
          (fmupd 0 \<lparr>pf_chunks = fmupd 0 [1] fmempty, pf_totalParts = 2, pf_from = ''b'', pf_timestamp = 9000\<rparr> fmempty)))
       = Some [1, 2]
   \<and> fmlookup (snd (handleChunkedMedia 10000 \<lparr>ev_from = None, ev_data = Some [2], ev_sequence = Some 201, ev_timestamp = None\<rparr>
        (fmupd 5 \<lparr>pf_chunks = fmupd 0 [9] fmempty, pf_totalParts = 2, pf_from = ''a'', pf_timestamp = 1000\<rparr>
          (fmupd 0 \<lparr>pf_chunks = fmupd 0 [1] fmempty, pf_totalParts = 2, pf_from = ''b'', pf_timestamp = 9000\<rparr> fmempty)))) 5
       = None"
proof -
  have d: "decode_sequence 201 = (0, 1, 2)" by (simp add: decode_sequence_def js_rem_def)
  have r: "fst (handleChunkedMedia 10000 \<lparr>ev_from = None, ev_data = Some [2], ev_sequence = Some 201, ev_timestamp = None\<rparr>
        (fmupd 5 \<lparr>pf_chunks = fmupd 0 [9] fmempty, pf_totalParts = 2, pf_from = ''a'', pf_timestamp = 1000\<rparr>
          (fmupd 0 \<lparr>pf_chunks = fmupd 0 [1] fmempty, pf_totalParts = 2, pf_from = ''b'', pf_timestamp = 9000\<rparr> fmempty)))
       = Some [1, 2]"
    by (simp add: handleChunkedMedia_def d fcard_fmdom collect_parts.simps Let_def)
  show ?thesis
    using staleness_sweep [of "\<lparr>ev_from = None, ev_data = Some [2], ev_sequence = Some 201, ev_timestamp = None\<rparr>"
        "[2]" 201 0 1 2 5 10000
        "fmupd 5 \<lparr>pf_chunks = fmupd 0 [9] fmempty, pf_totalParts = 2, pf_from = ''a'', pf_timestamp = 1000\<rparr>
          (fmupd 0 \<lparr>pf_chunks = fmupd 0 [1] fmempty, pf_totalParts = 2, pf_from = ''b'', pf_timestamp = 9000\<rparr> fmempty)" 10000]
      d r
    by simp
qed

text \<open>
  C4 as stated fails: the two parts of a frame are handled 19 seconds apart, and the
  frame is reassembled and emitted all the same.
\<close>

theorem staleness_counterexample:
  "deliver [(1000, \<lparr>ev_from = Some ''peer'', ev_data = Some [1], ev_sequence = Some 200, ev_timestamp = Some 1000\<rparr>),
            (20000, \<lparr>ev_from = Some ''peer'', ev_data = Some [2], ev_sequence = Some 201, ev_timestamp = Some 20000\<rparr>)]
           fmempty
     = ([[1, 2]], fmempty)"
  by (simp add: handleChunkedMedia_def decode_sequence_def js_rem_def fcard_fmdom collect_parts.simps drop_stale_def Let_def fmdrop_fmupd_same)

subsection \<open>Repeated delivery\<close>

text \<open>
  C5 (as amended). The reassembler keeps no record of completed frames: for a multi-part
  frame (a payload longer than \<open>MAX_CHUNK_SIZE\<close> and of at most \<open>99 * MAX_CHUNK_SIZE\<close>
  bytes) with a valid frame number (not negative, \<open>frameNumber * 10000 + 9999\<close> at most
  \<open>2^53 - 1\<close>) and no pending frame of that number at the start, delivering the
  complete set of parts twice (each delivery in any order, the second after the first)
  emits the payload exactly twice; no call fails.
\<close>

theorem redelivery_dispatches_twice:
  assumes "MAX_CHUNK_SIZE < length payload" "length payload \<le> 99 * MAX_CHUNK_SIZE"
    and "valid_frameNumber frameNumber" "fmlookup pending frameNumber = None"
    and "carries first (broadcastChunk payload frameNumber)"
    and "carries second (broadcastChunk payload frameNumber)"
  shows "fst (deliver (first @ second) pending) = [payload, payload]"
proof -
  have f: "0 \<le> frameNumber" using assms(3) by (simp add: valid_frameNumber_def)
  have a: "fst (deliver first pending) = [payload]
           \<and> fmlookup (snd (deliver first pending)) frameNumber = None"
    using assms(1,2,4,5) f by (intro deliver_multi) auto
  then have "fst (deliver second (snd (deliver first pending))) = [payload]"
    using assms(1,2,6) f
      deliver_multi [of payload frameNumber "snd (deliver first pending)" second] by simp
  with a show ?thesis by (simp add: deliver_append)
qed

theorem redelivery_dispatches_twice_witness:
  "MAX_CHUNK_SIZE < length (replicate 56321 (0::byte))
   \<and> length (replicate 56321 (0::byte)) \<le> 99 * MAX_CHUNK_SIZE \<and> valid_frameNumber 7
   \<and> fmlookup (fmempty :: pendingChunks) 7 = None
   \<and> carries (arrivals 5 [(replicate 56320 0, 70200), (replicate 1 0, 70201)])
        (broadcastChunk (replicate 56321 0) 7)
   \<and> carries (arrivals 9 [(replicate 1 0, 70201), (replicate 56320 0, 70200)])
        (broadcastChunk (replicate 56321 0) 7)
   \<and> fst (deliver (arrivals 5 [(replicate 56320 0, 70200), (replicate 1 0, 70201)]
                    @ arrivals 9 [(replicate 1 0, 70201), (replicate 56320 0, 70200)]) fmempty)
       = [replicate 56321 0, replicate 56321 0]"
proof -
  have c1: "carries (arrivals 5 [(replicate 56320 0, 70200), (replicate 1 0, 70201)])
        (broadcastChunk (replicate 56321 0) 7)"
    unfolding bc2 by (simp add: carries_def)
  have c2: "carries (arrivals 9 [(replicate 1 0, 70201), (replicate 56320 0, 70200)])
        (broadcastChunk (replicate 56321 0) 7)"
    unfolding bc2 by (simp add: carries_def)
  have l: "MAX_CHUNK_SIZE < length (replicate 56321 (0::byte))"
      "length (replicate 56321 (0::byte)) \<le> 99 * MAX_CHUNK_SIZE"
    by (simp_all add: MAX_CHUNK_SIZE_def)
  have v: "valid_frameNumber 7" by (simp add: valid_frameNumber_def MAX_SAFE_INTEGER_def)
  show ?thesis
    using redelivery_dispatches_twice [of "replicate 56321 0" 7 fmempty
        "arrivals 5 [(replicate 56320 0, 70200), (replicate 1 0, 70201)]"
        "arrivals 9 [(replicate 1 0, 70201), (replicate 56320 0, 70200)]"] c1 c2 l v
    by simp
qed

text \<open>
  C5 as stated fails: two parts delivered twice give two emitted buffers, not at most one.
\<close>

theorem idempotence_counterexample:
  "fst (deliver (arrivals 0 [([1], 200), ([2], 201)] @ arrivals 0 [([1], 200), ([2], 201)]) fmempty)
     = [[1, 2], [1, 2]]"
  by (simp add: handleChunkedMedia_def decode_sequence_def js_rem_def fcard_fmdom collect_parts.simps drop_stale_def Let_def fmdrop_fmupd_same)

section \<open>Properties of the signaling handler\<close>

lemmas example_defs = example_engine_def example_session_def signal_from_def

subsection \<open>ICE candidates\<close>


lemma handle_accepted:
  assumes "accepted s signal"
  shows "handleWebRTCSignal eng signal s =
     (case sig_type signal of
        WebrtcRequestOffer \<Rightarrow> on_request_offer eng signal (the (streamChannel s)) s
      | WebrtcOffer \<Rightarrow> on_offer eng signal (the (streamChannel s)) s
      | WebrtcAnswer \<Rightarrow> on_answer signal s
      | WebrtcIceCandidate \<Rightarrow> on_ice_candidate signal s)"
  using assms by (auto simp: accepted_def handleWebRTCSignal_def split: option.splits signal_type.splits)













subsection \<open>Invocations run to their end, and invocations interleaved\<close>

text \<open>
  \<open>handleWebRTCSignal\<close> is the interleaved model with every invocation resumed to its
  end before anything else happens: from a state with no invocation under way, a signal
  that arrives, its invocation then resumed some number of times, leaves no invocation
  under way and the refs as \<open>handleWebRTCSignal\<close> leaves them. The loop over the queued
  candidates is the part that takes an induction.
\<close>

lemma async_run_append:
  "async_run eng (xs @ ys) st = async_run eng ys (async_run eng xs st)"
  by (induction xs arbitrary: st) simp_all

lemma resume_suspended:
  "as_suspended st = [] \<Longrightarrow> async_step eng (Resume 0) (suspend t st) = async_resume eng t st"
proof -
  assume e: "as_suspended st = []"
  then have r: "st\<lparr>as_suspended := []\<rparr> = st" by (cases st) simp
  show ?thesis by (simp add: async_step_def suspend_def e r)
qed

lemma on_connection_comp:
  "on_connection a f (on_connection a g st) = on_connection a (f \<circ> g) st"
  by (cases "a < length (as_connections st)") (simp_all add: on_connection_def list_update_beyond)

lemma on_connection_fields:
  "as_suspended (on_connection a f st) = as_suspended st"
  "as_arrays (on_connection a f st) = as_arrays st"
  "as_pendingIceCandidates (on_connection a f st) = as_pendingIceCandidates st"
  "as_peerConnections (on_connection a f st) = as_peerConnections st"
  "as_myEndpointId (on_connection a f st) = as_myEndpointId st"
  "as_streamChannel (on_connection a f st) = as_streamChannel st"
  "as_mediaStream (on_connection a f st) = as_mediaStream st"
  "length (as_connections (on_connection a f st)) = length (as_connections st)"
  by (simp_all add: on_connection_def)

lemma flush_runs:
  assumes "as_suspended st = []" "length (case arr of Some q \<Rightarrow> as_arrays st ! q | None \<Rightarrow> []) - i = k"
  shows "\<exists>n. async_run eng (replicate n (Resume 0)) (flush_next role a signal arr i st)
           = after_flush role a signal
               (on_connection a
                  (fold addIceCandidate
                     (drop i (case arr of Some q \<Rightarrow> as_arrays st ! q | None \<Rightarrow> []))) st)"
  using assms
proof (induction k arbitrary: i st)
  case 0
  let ?pending = "case arr of Some q \<Rightarrow> as_arrays st ! q | None \<Rightarrow> []"
  have l: "\<not> i < length ?pending" using 0(2) by simp
  then have d: "drop i ?pending = []" by simp
  have "flush_next role a signal arr i st = after_flush role a signal st"
    using l by (simp add: flush_next_def after_flush_def Let_def)
  then have "async_run eng (replicate 0 (Resume 0)) (flush_next role a signal arr i st)
           = after_flush role a signal (on_connection a (fold addIceCandidate (drop i ?pending)) st)"
    unfolding d by (simp add: on_connection_def)
  then show ?case by blast
next
  case (Suc k)
  let ?pending = "case arr of Some q \<Rightarrow> as_arrays st ! q | None \<Rightarrow> []"
  let ?st = "on_connection a (addIceCandidate (?pending ! i)) st"
  have l: "i < length ?pending" using Suc(3) by simp
  have p: "(case arr of Some q \<Rightarrow> as_arrays ?st ! q | None \<Rightarrow> []) = ?pending"
    by (cases arr) (simp_all add: on_connection_fields)
  have s: "as_suspended ?st = []" using Suc(2) by (simp add: on_connection_fields)
  have k: "length (case arr of Some q \<Rightarrow> as_arrays ?st ! q | None \<Rightarrow> []) - (i + 1) = k"
    unfolding p using Suc(3) by simp
  obtain n where n: "async_run eng (replicate n (Resume 0)) (flush_next role a signal arr (i + 1) ?st)
           = after_flush role a signal
               (on_connection a (fold addIceCandidate (drop (i + 1) ?pending)) ?st)"
    using Suc.IH [OF s k, unfolded p] by blast
  have f: "flush_next role a signal arr i st
             = suspend (AwaitAddIceCandidate role a signal arr (i + 1)) ?st"
    using l by (simp add: flush_next_def Let_def)
  have d: "drop i ?pending = ?pending ! i # drop (i + 1) ?pending"
    using l by (simp add: Cons_nth_drop_Suc)
  have "async_run eng (replicate (Suc n) (Resume 0)) (flush_next role a signal arr i st)
          = async_run eng (replicate n (Resume 0)) (flush_next role a signal arr (i + 1) ?st)"
    unfolding f by (simp add: resume_suspended [OF s])
  also have "\<dots> = after_flush role a signal
               (on_connection a (fold addIceCandidate (drop i ?pending)) st)"
    unfolding n on_connection_comp d by (simp add: comp_def)
  finally show ?case by blast
qed

text \<open>
  What each operation on the store does to the refs read through it.
\<close>

lemma store_ok_on_connection: "store_ok (on_connection a f st) = store_ok st"
  by (simp add: store_ok_def on_connection_fields)

lemma store_ok_broadcast: "store_ok (channel_broadcastSignal sg st) = store_ok st"
  by (simp add: store_ok_def channel_broadcastSignal_def)

lemma view_broadcast:
  "view (channel_broadcastSignal sg st)
     = (view st)\<lparr>streamChannel := map_option (\<lambda>sent. sent @ [sg]) (streamChannel (view st))\<rparr>"
  by (simp add: view_def channel_broadcastSignal_def)

lemma view_on_connection:
  assumes "store_ok st" "fmlookup (as_peerConnections st) p = Some a"
  shows "view (on_connection a f st)
           = (view st)\<lparr>peerConnections :=
                fmupd p \<lparr>pc = f (as_connections st ! a), peerId = p\<rparr> (peerConnections (view st))\<rparr>"
proof -
  have l: "a < length (as_connections st)" using assms by (auto simp: store_ok_def)
  have n: "\<And>x b. x \<noteq> p \<Longrightarrow> fmlookup (as_peerConnections st) x = Some b \<Longrightarrow> b \<noteq> a"
    using assms by (auto simp: store_ok_def)
  have "fmmap_keys (\<lambda>p b. \<lparr>pc = (as_connections st)[a := f (as_connections st ! a)] ! b, peerId = p\<rparr>)
          (as_peerConnections st)
        = fmupd p \<lparr>pc = f (as_connections st ! a), peerId = p\<rparr>
            (fmmap_keys (\<lambda>p b. \<lparr>pc = as_connections st ! b, peerId = p\<rparr>) (as_peerConnections st))"
  proof (rule fmap_ext)
    fix x
    show "fmlookup (fmmap_keys (\<lambda>p b. \<lparr>pc = (as_connections st)[a := f (as_connections st ! a)] ! b, peerId = p\<rparr>)
          (as_peerConnections st)) x
        = fmlookup (fmupd p \<lparr>pc = f (as_connections st ! a), peerId = p\<rparr>
            (fmmap_keys (\<lambda>p b. \<lparr>pc = as_connections st ! b, peerId = p\<rparr>) (as_peerConnections st))) x"
    proof (cases "x = p")
      case True
      then show ?thesis using assms(2) l by simp
    next
      case False
      then show ?thesis using n [OF False]
        by (cases "fmlookup (as_peerConnections st) x") simp_all
    qed
  qed
  then show ?thesis by (simp add: view_def on_connection_def)
qed

lemma store_ok_new_connection:
  assumes "store_ok st"
  shows "store_ok (new_connection p c st)"
  using assms unfolding store_ok_def new_connection_def
  by (auto simp: less_Suc_eq split: if_splits)

lemma view_new_connection:
  assumes "store_ok st"
  shows "view (new_connection p c st)
           = (view st)\<lparr>peerConnections := fmupd p \<lparr>pc = c, peerId = p\<rparr> (peerConnections (view st))\<rparr>"
proof -
  have l: "\<And>x b. fmlookup (as_peerConnections st) x = Some b \<Longrightarrow> b < length (as_connections st)"
    using assms by (auto simp: store_ok_def)
  have "fmmap_keys (\<lambda>p b. \<lparr>pc = (as_connections st @ [c]) ! b, peerId = p\<rparr>)
          (fmupd p (length (as_connections st)) (as_peerConnections st))
        = fmupd p \<lparr>pc = c, peerId = p\<rparr>
            (fmmap_keys (\<lambda>p b. \<lparr>pc = as_connections st ! b, peerId = p\<rparr>) (as_peerConnections st))"
  proof (rule fmap_ext)
    fix x
    show "fmlookup (fmmap_keys (\<lambda>p b. \<lparr>pc = (as_connections st @ [c]) ! b, peerId = p\<rparr>)
          (fmupd p (length (as_connections st)) (as_peerConnections st))) x
        = fmlookup (fmupd p \<lparr>pc = c, peerId = p\<rparr>
            (fmmap_keys (\<lambda>p b. \<lparr>pc = as_connections st ! b, peerId = p\<rparr>) (as_peerConnections st))) x"
    proof (cases "x = p")
      case True
      then show ?thesis by simp
    next
      case False
      then show ?thesis using l [of x]
        by (cases "fmlookup (as_peerConnections st) x") (simp_all add: nth_append)
    qed
  qed
  then show ?thesis by (simp add: view_def new_connection_def)
qed

lemma new_connection_fields:
  "fmlookup (as_peerConnections (new_connection p c st)) p = Some (length (as_connections st))"
  "as_connections (new_connection p c st) ! length (as_connections st) = c"
  "as_suspended (new_connection p c st) = as_suspended st"
  "as_arrays (new_connection p c st) = as_arrays st"
  "as_pendingIceCandidates (new_connection p c st) = as_pendingIceCandidates st"
  "as_myEndpointId (new_connection p c st) = as_myEndpointId st"
  "as_streamChannel (new_connection p c st) = as_streamChannel st"
  by (simp_all add: new_connection_def)

lemma store_ok_async_queue:
  assumes "store_ok st"
  shows "store_ok (async_queue p cand st)"
  using assms unfolding store_ok_def async_queue_def Let_def
  by (auto simp: less_Suc_eq fmlookup_dom_iff split: if_splits)

lemma view_async_queue:
  assumes "store_ok st"
  shows "view (async_queue p cand st) = queue_candidate p cand (view st)"
proof (cases "fmlookup (as_pendingIceCandidates st) p")
  case None
  have l: "\<And>x b. fmlookup (as_pendingIceCandidates st) x = Some b \<Longrightarrow> b < length (as_arrays st)"
    using assms by (auto simp: store_ok_def)
  have d: "p |\<notin>| fmdom (as_pendingIceCandidates st)" using None by (simp add: fmdom_notI)
  have "fmmap (\<lambda>q. ((as_arrays st @ [[]])[length (as_arrays st) := [cand]]) ! q)
          (fmupd p (length (as_arrays st)) (as_pendingIceCandidates st))
        = fmupd p [cand] (fmmap (\<lambda>q. as_arrays st ! q) (as_pendingIceCandidates st))"
  proof (rule fmap_ext)
    fix x
    show "fmlookup (fmmap (\<lambda>q. ((as_arrays st @ [[]])[length (as_arrays st) := [cand]]) ! q)
          (fmupd p (length (as_arrays st)) (as_pendingIceCandidates st))) x
        = fmlookup (fmupd p [cand] (fmmap (\<lambda>q. as_arrays st ! q) (as_pendingIceCandidates st))) x"
    proof (cases "x = p")
      case True
      then show ?thesis by simp
    next
      case False
      then show ?thesis using l [of x]
        by (cases "fmlookup (as_pendingIceCandidates st) x") (simp_all add: nth_append)
    qed
  qed
  then show ?thesis using d
    by (simp add: view_def async_queue_def queue_candidate_def Let_def)
next
  case (Some q)
  have l: "q < length (as_arrays st)" using assms Some by (auto simp: store_ok_def)
  have n: "\<And>x b. x \<noteq> p \<Longrightarrow> fmlookup (as_pendingIceCandidates st) x = Some b \<Longrightarrow> b \<noteq> q"
    using assms Some by (auto simp: store_ok_def)
  have d: "p |\<in>| fmdom (as_pendingIceCandidates st)" using Some by (simp add: fmdomI)
  have "fmmap (\<lambda>b. (as_arrays st)[q := as_arrays st ! q @ [cand]] ! b) (as_pendingIceCandidates st)
        = fmupd p (as_arrays st ! q @ [cand])
            (fmmap (\<lambda>q. as_arrays st ! q) (as_pendingIceCandidates st))"
  proof (rule fmap_ext)
    fix x
    show "fmlookup (fmmap (\<lambda>b. (as_arrays st)[q := as_arrays st ! q @ [cand]] ! b) (as_pendingIceCandidates st)) x
        = fmlookup (fmupd p (as_arrays st ! q @ [cand])
            (fmmap (\<lambda>q. as_arrays st ! q) (as_pendingIceCandidates st))) x"
    proof (cases "x = p")
      case True
      then show ?thesis using Some l by simp
    next
      case False
      then show ?thesis using n [OF False]
        by (cases "fmlookup (as_pendingIceCandidates st) x") simp_all
    qed
  qed
  then show ?thesis using d Some
    by (simp add: view_def async_queue_def queue_candidate_def Let_def)
qed

lemma view_drop_queue:
  "view (st\<lparr>as_pendingIceCandidates := fmdrop p (as_pendingIceCandidates st)\<rparr>)
     = (view st)\<lparr>pendingIceCandidates := fmdrop p (pendingIceCandidates (view st))\<rparr>"
proof -
  have "fmmap (\<lambda>q. as_arrays st ! q) (fmdrop p (as_pendingIceCandidates st))
          = fmdrop p (fmmap (\<lambda>q. as_arrays st ! q) (as_pendingIceCandidates st))"
    by (rule fmap_ext) simp
  then show ?thesis by (simp add: view_def)
qed

lemma store_ok_drop_queue:
  "store_ok st \<Longrightarrow> store_ok (st\<lparr>as_pendingIceCandidates := fmdrop p (as_pendingIceCandidates st)\<rparr>)"
  unfolding store_ok_def by (auto split: if_splits)

lemma view_pending:
  "pending_or_empty (pendingIceCandidates (view st)) p
     = (case fmlookup (as_pendingIceCandidates st) p of Some q \<Rightarrow> as_arrays st ! q | None \<Rightarrow> [])"
  by (simp add: view_def pending_or_empty_def split: option.splits)

lemma view_fields:
  "ls_myEndpointId (view st) = as_myEndpointId st"
  "streamChannel (view st) = as_streamChannel st"
  "mediaStream (view st) = as_mediaStream st"
  by (simp_all add: view_def)

text \<open>
  The four kinds of signal, each invocation resumed to its end.
\<close>

lemma offer_run:
  assumes ok: "store_ok st" and s: "as_suspended st = []" and ch: "as_streamChannel st = Some sent"
  shows "\<exists>n. as_suspended (async_run eng (replicate n (Resume 0))
                 (suspend (AwaitSetRemoteDescription Offer (length (as_connections st)) signal)
                    (new_connection (sig_from signal) createViewerPeerConnection st))) = []
            \<and> store_ok (async_run eng (replicate n (Resume 0))
                 (suspend (AwaitSetRemoteDescription Offer (length (as_connections st)) signal)
                    (new_connection (sig_from signal) createViewerPeerConnection st)))
            \<and> view (async_run eng (replicate n (Resume 0))
                 (suspend (AwaitSetRemoteDescription Offer (length (as_connections st)) signal)
                    (new_connection (sig_from signal) createViewerPeerConnection st)))
                = on_offer eng signal sent (view st)"
proof -
  define a where "a = length (as_connections st)"
  define p where "p = sig_from signal"
  define st1 where "st1 = new_connection p createViewerPeerConnection st"
  define arr where "arr = fmlookup (as_pendingIceCandidates st) p"
  define pend where "pend = (case arr of Some q \<Rightarrow> as_arrays st ! q | None \<Rightarrow> [])"
  define c1 where "c1 = setRemoteDescription (Offer, sig_sdp signal) createViewerPeerConnection"
  define c2 where "c2 = fold addIceCandidate pend c1"
  define answer where "answer = createAnswer eng c2"
  define c3 where "c3 = setLocalDescription (Answer, Some answer) c2"
  define sg where "sg = \<lparr>sig_type = WebrtcAnswer, sig_from = as_myEndpointId st,
           sig_to = Some p, sig_sdp = Some answer, sig_candidate = None\<rparr>"
  define st2 where "st2 = on_connection a (setRemoteDescription (Offer, sig_sdp signal)) st1"
  define st3 where "st3 = on_connection a (fold addIceCandidate pend) st2"
  define st4 where "st4 = st3\<lparr>as_pendingIceCandidates := fmdrop p (as_pendingIceCandidates st3)\<rparr>"
  define st5 where "st5 = on_connection a (setLocalDescription (Answer, Some answer)) st4"
  define st6 where "st6 = channel_broadcastSignal sg st5"
  have ok1: "store_ok st1" unfolding st1_def by (rule store_ok_new_connection [OF ok])
  have l1: "fmlookup (as_peerConnections st1) p = Some a" "as_connections st1 ! a = createViewerPeerConnection"
      "as_suspended st1 = []" "as_arrays st1 = as_arrays st"
      "as_pendingIceCandidates st1 = as_pendingIceCandidates st" "as_myEndpointId st1 = as_myEndpointId st"
    unfolding st1_def a_def by (simp_all add: new_connection_fields s)
  have v1: "view st1 = (view st)\<lparr>peerConnections :=
               fmupd p \<lparr>pc = createViewerPeerConnection, peerId = p\<rparr> (peerConnections (view st))\<rparr>"
    unfolding st1_def by (rule view_new_connection [OF ok])
  have ok2: "store_ok st2" unfolding st2_def using ok1 by (simp add: store_ok_on_connection)
  have l2: "fmlookup (as_peerConnections st2) p = Some a" "as_suspended st2 = []"
      "as_arrays st2 = as_arrays st" "as_pendingIceCandidates st2 = as_pendingIceCandidates st"
      "as_myEndpointId st2 = as_myEndpointId st"
    unfolding st2_def using l1 by (simp_all add: on_connection_fields)
  have a_lt: "a < length (as_connections st1)" using ok1 l1(1) by (auto simp: store_ok_def)
  have n2: "as_connections st2 ! a = c1"
    unfolding st2_def c1_def using a_lt l1(2) by (simp add: on_connection_def)
  have v2: "view st2 = (view st1)\<lparr>peerConnections :=
               fmupd p \<lparr>pc = c1, peerId = p\<rparr> (peerConnections (view st1))\<rparr>"
    unfolding st2_def c1_def using view_on_connection [OF ok1 l1(1)] l1(2) by simp
  have ok3: "store_ok st3" unfolding st3_def using ok2 by (simp add: store_ok_on_connection)
  have l3: "fmlookup (as_peerConnections st3) p = Some a" "as_suspended st3 = []"
      "as_arrays st3 = as_arrays st" "as_pendingIceCandidates st3 = as_pendingIceCandidates st"
      "as_myEndpointId st3 = as_myEndpointId st"
    unfolding st3_def using l2 by (simp_all add: on_connection_fields)
  have a_lt2: "a < length (as_connections st2)"
    unfolding st2_def using a_lt by (simp add: on_connection_fields)
  have n3: "as_connections st3 ! a = c2"
    unfolding st3_def c2_def using a_lt2 n2 by (simp add: on_connection_def)
  have v3: "view st3 = (view st2)\<lparr>peerConnections :=
               fmupd p \<lparr>pc = c2, peerId = p\<rparr> (peerConnections (view st2))\<rparr>"
    unfolding st3_def c2_def using view_on_connection [OF ok2 l2(1)] n2 by simp
  have ok4: "store_ok st4" unfolding st4_def by (rule store_ok_drop_queue [OF ok3])
  have l4: "fmlookup (as_peerConnections st4) p = Some a" "as_suspended st4 = []"
      "as_connections st4 = as_connections st3" "as_myEndpointId st4 = as_myEndpointId st"
    unfolding st4_def using l3 by simp_all
  have v4: "view st4 = (view st3)\<lparr>pendingIceCandidates := fmdrop p (pendingIceCandidates (view st3))\<rparr>"
    unfolding st4_def by (rule view_drop_queue)
  have ok5: "store_ok st5" unfolding st5_def using ok4 by (simp add: store_ok_on_connection)
  have v5: "view st5 = (view st4)\<lparr>peerConnections :=
               fmupd p \<lparr>pc = c3, peerId = p\<rparr> (peerConnections (view st4))\<rparr>"
    unfolding st5_def c3_def using view_on_connection [OF ok4 l4(1)] n3 l4(3) by simp
  have l5: "as_suspended st5 = []" "as_myEndpointId st5 = as_myEndpointId st"
    unfolding st5_def using l4 by (simp_all add: on_connection_fields)
  have ok6: "store_ok st6" unfolding st6_def using ok5 by (simp add: store_ok_broadcast)
  have l6: "as_suspended st6 = []" unfolding st6_def using l5 by (simp add: channel_broadcastSignal_def)
  have v6: "view st6 = (view st5)\<lparr>streamChannel :=
               map_option (\<lambda>sent. sent @ [sg]) (streamChannel (view st5))\<rparr>"
    unfolding st6_def by (rule view_broadcast)
  have pe: "pending_or_empty (pendingIceCandidates (view st)) p = pend"
    unfolding pend_def arr_def by (rule view_pending)
  have v: "view st6 = on_offer eng signal sent (view st)"
    unfolding v6 v5 v4 v3 v2 v1 on_offer_def Let_def p_def [symmetric] pe
      c1_def [symmetric] c2_def [symmetric] answer_def [symmetric] c3_def [symmetric]
    by (simp add: view_fields ch sg_def)
  have arr2: "fmlookup (as_pendingIceCandidates st2) (sig_from signal) = arr"
    unfolding arr_def p_def using l2(4) by simp
  have pend2: "(case arr of Some q \<Rightarrow> as_arrays st2 ! q | None \<Rightarrow> []) = pend"
    unfolding pend_def l2(3) by simp
  have k: "length (case arr of Some q \<Rightarrow> as_arrays st2 ! q | None \<Rightarrow> []) - 0 = length pend"
    unfolding pend2 by simp
  obtain n where n: "async_run eng (replicate n (Resume 0)) (flush_next Offer a signal arr 0 st2)
           = after_flush Offer a signal st3"
    using flush_runs [OF l2(2) k, of eng Offer a signal] unfolding pend2 st3_def by auto
  have af: "after_flush Offer a signal st3 = suspend (AwaitCreateAnswer a signal) st4"
    unfolding st4_def p_def by (simp add: after_flush_def Let_def)
  have r1: "async_step eng (Resume 0) (suspend (AwaitSetRemoteDescription Offer a signal) st1)
              = flush_next Offer a signal arr 0 st2"
    unfolding resume_suspended [OF l1(3)] using arr2
    by (simp add: Let_def st2_def)
  have r2: "async_step eng (Resume 0) (suspend (AwaitCreateAnswer a signal) st4)
              = suspend (AwaitSetLocalAnswer a signal answer) st4"
    unfolding resume_suspended [OF l4(2)] using n3 l4(3) by (simp add: answer_def)
  have r3: "async_step eng (Resume 0) (suspend (AwaitSetLocalAnswer a signal answer) st4)
              = suspend AwaitLast st6"
    unfolding resume_suspended [OF l4(2)] st6_def st5_def sg_def p_def using l4(4) by simp
  have r4: "async_step eng (Resume 0) (suspend AwaitLast st6) = st6"
    unfolding resume_suspended [OF l6] by simp
  have "async_run eng (replicate (Suc n + 3) (Resume 0))
          (suspend (AwaitSetRemoteDescription Offer a signal) st1) = st6"
    unfolding replicate_add async_run_append
    by (simp add: r1 n af numeral_3_eq_3 r2 r3 r4)
  then show ?thesis
    using l6 ok6 v unfolding a_def st1_def p_def by metis
qed

lemma answer_run:
  assumes ok: "store_ok st" and s: "as_suspended st = []"
    and h: "fmlookup (as_peerConnections st) (sig_from signal) = Some a"
  shows "\<exists>n. as_suspended (async_run eng (replicate n (Resume 0))
                 (suspend (AwaitSetRemoteDescription Answer a signal) st)) = []
            \<and> store_ok (async_run eng (replicate n (Resume 0))
                 (suspend (AwaitSetRemoteDescription Answer a signal) st))
            \<and> view (async_run eng (replicate n (Resume 0))
                 (suspend (AwaitSetRemoteDescription Answer a signal) st))
                = on_answer signal (view st)"
proof -
  define p where "p = sig_from signal"
  define arr where "arr = fmlookup (as_pendingIceCandidates st) p"
  define pend where "pend = (case arr of Some q \<Rightarrow> as_arrays st ! q | None \<Rightarrow> [])"
  define c1 where "c1 = setRemoteDescription (Answer, sig_sdp signal) (as_connections st ! a)"
  define c2 where "c2 = fold addIceCandidate pend c1"
  define st2 where "st2 = on_connection a (setRemoteDescription (Answer, sig_sdp signal)) st"
  define st3 where "st3 = on_connection a (fold addIceCandidate pend) st2"
  define st4 where "st4 = st3\<lparr>as_pendingIceCandidates := fmdrop p (as_pendingIceCandidates st3)\<rparr>"
  have hp: "fmlookup (as_peerConnections st) p = Some a" unfolding p_def by (rule h)
  have a_lt: "a < length (as_connections st)" using ok hp by (auto simp: store_ok_def)
  have ok2: "store_ok st2" unfolding st2_def using ok by (simp add: store_ok_on_connection)
  have l2: "fmlookup (as_peerConnections st2) p = Some a" "as_suspended st2 = []"
      "as_arrays st2 = as_arrays st" "as_pendingIceCandidates st2 = as_pendingIceCandidates st"
    unfolding st2_def using hp s by (simp_all add: on_connection_fields)
  have n2: "as_connections st2 ! a = c1"
    unfolding st2_def c1_def using a_lt by (simp add: on_connection_def)
  have v2: "view st2 = (view st)\<lparr>peerConnections :=
               fmupd p \<lparr>pc = c1, peerId = p\<rparr> (peerConnections (view st))\<rparr>"
    unfolding st2_def c1_def by (rule view_on_connection [OF ok hp])
  have ok3: "store_ok st3" unfolding st3_def using ok2 by (simp add: store_ok_on_connection)
  have l3: "as_suspended st3 = []"
    unfolding st3_def using l2 by (simp_all add: on_connection_fields)
  have v3: "view st3 = (view st2)\<lparr>peerConnections :=
               fmupd p \<lparr>pc = c2, peerId = p\<rparr> (peerConnections (view st2))\<rparr>"
    unfolding st3_def c2_def using view_on_connection [OF ok2 l2(1)] n2 by simp
  have ok4: "store_ok st4" unfolding st4_def by (rule store_ok_drop_queue [OF ok3])
  have l4: "as_suspended st4 = []" unfolding st4_def using l3 by simp
  have v4: "view st4 = (view st3)\<lparr>pendingIceCandidates := fmdrop p (pendingIceCandidates (view st3))\<rparr>"
    unfolding st4_def by (rule view_drop_queue)
  have pe: "pending_or_empty (pendingIceCandidates (view st)) p = pend"
    unfolding pend_def arr_def by (rule view_pending)
  have pi: "fmlookup (peerConnections (view st)) p = Some \<lparr>pc = as_connections st ! a, peerId = p\<rparr>"
    using hp by (simp add: view_def)
  have v: "view st4 = on_answer signal (view st)"
    unfolding v4 v3 v2 on_answer_def Let_def p_def [symmetric] pi pe
    by (simp add: c1_def [symmetric] c2_def [symmetric])
  have arr2: "fmlookup (as_pendingIceCandidates st2) (sig_from signal) = arr"
    unfolding arr_def p_def using l2(4) by simp
  have pend2: "(case arr of Some q \<Rightarrow> as_arrays st2 ! q | None \<Rightarrow> []) = pend"
    unfolding pend_def l2(3) by simp
  have k: "length (case arr of Some q \<Rightarrow> as_arrays st2 ! q | None \<Rightarrow> []) - 0 = length pend"
    unfolding pend2 by simp
  obtain n where n: "async_run eng (replicate n (Resume 0)) (flush_next Answer a signal arr 0 st2)
           = after_flush Answer a signal st3"
    using flush_runs [OF l2(2) k, of eng Answer a signal] unfolding pend2 st3_def by auto
  have af: "after_flush Answer a signal st3 = st4"
    unfolding st4_def p_def by (simp add: after_flush_def Let_def)
  have r1: "async_step eng (Resume 0) (suspend (AwaitSetRemoteDescription Answer a signal) st)
              = flush_next Answer a signal arr 0 st2"
    unfolding resume_suspended [OF s] using arr2
    by (simp add: Let_def st2_def)
  have "async_run eng (replicate (Suc n) (Resume 0))
          (suspend (AwaitSetRemoteDescription Answer a signal) st) = st4"
    by (simp add: r1 n af)
  then show ?thesis
    using l4 ok4 v by metis
qed

lemma request_offer_run:
  assumes ok: "store_ok st" and s: "as_suspended st = []" and ch: "as_streamChannel st = Some sent"
    and m: "as_mediaStream st = Some tracks" and live: "length (filter (\<lambda>t. t = Live) tracks) \<noteq> 0"
  shows "as_suspended (async_run eng (replicate 3 (Resume 0))
                 (suspend (AwaitCreateOffer (length (as_connections st)) signal)
                    (new_connection (sig_from signal) (createBroadcasterPeerConnection tracks) st))) = []
            \<and> store_ok (async_run eng (replicate 3 (Resume 0))
                 (suspend (AwaitCreateOffer (length (as_connections st)) signal)
                    (new_connection (sig_from signal) (createBroadcasterPeerConnection tracks) st)))
            \<and> view (async_run eng (replicate 3 (Resume 0))
                 (suspend (AwaitCreateOffer (length (as_connections st)) signal)
                    (new_connection (sig_from signal) (createBroadcasterPeerConnection tracks) st)))
                = on_request_offer eng signal sent (view st)"
proof -
  define a where "a = length (as_connections st)"
  define p where "p = sig_from signal"
  define c0 where "c0 = createBroadcasterPeerConnection tracks"
  define st1 where "st1 = new_connection p c0 st"
  define offer where "offer = createOffer eng c0"
  define c1 where "c1 = setLocalDescription (Offer, Some offer) c0"
  define sg where "sg = \<lparr>sig_type = WebrtcOffer, sig_from = as_myEndpointId st,
           sig_to = Some p, sig_sdp = Some offer, sig_candidate = None\<rparr>"
  define st2 where "st2 = on_connection a (setLocalDescription (Offer, Some offer)) st1"
  define st3 where "st3 = channel_broadcastSignal sg st2"
  have ok1: "store_ok st1" unfolding st1_def by (rule store_ok_new_connection [OF ok])
  have l1: "fmlookup (as_peerConnections st1) p = Some a" "as_connections st1 ! a = c0"
      "as_suspended st1 = []" "as_myEndpointId st1 = as_myEndpointId st"
    unfolding st1_def a_def by (simp_all add: new_connection_fields s)
  have v1: "view st1 = (view st)\<lparr>peerConnections :=
               fmupd p \<lparr>pc = c0, peerId = p\<rparr> (peerConnections (view st))\<rparr>"
    unfolding st1_def by (rule view_new_connection [OF ok])
  have ok2: "store_ok st2" unfolding st2_def using ok1 by (simp add: store_ok_on_connection)
  have l2: "as_suspended st2 = []"
    unfolding st2_def using l1 by (simp_all add: on_connection_fields)
  have v2: "view st2 = (view st1)\<lparr>peerConnections :=
               fmupd p \<lparr>pc = c1, peerId = p\<rparr> (peerConnections (view st1))\<rparr>"
    unfolding st2_def c1_def using view_on_connection [OF ok1 l1(1)] l1(2) by simp
  have ok3: "store_ok st3" unfolding st3_def using ok2 by (simp add: store_ok_broadcast)
  have l3: "as_suspended st3 = []" unfolding st3_def using l2 by (simp add: channel_broadcastSignal_def)
  have v3: "view st3 = (view st2)\<lparr>streamChannel :=
               map_option (\<lambda>sent. sent @ [sg]) (streamChannel (view st2))\<rparr>"
    unfolding st3_def by (rule view_broadcast)
  have v: "view st3 = on_request_offer eng signal sent (view st)"
    unfolding v3 v2 v1 on_request_offer_def Let_def p_def [symmetric]
    using live
    by (simp add: view_fields ch m sg_def c0_def [symmetric] offer_def [symmetric] c1_def [symmetric])
  have r1: "async_step eng (Resume 0) (suspend (AwaitCreateOffer a signal) st1)
              = suspend (AwaitSetLocalOffer a signal offer) st1"
    unfolding resume_suspended [OF l1(3)] using l1(2) by (simp add: offer_def)
  have r2: "async_step eng (Resume 0) (suspend (AwaitSetLocalOffer a signal offer) st1)
              = suspend AwaitLast st3"
    unfolding resume_suspended [OF l1(3)] st3_def st2_def sg_def p_def using l1(4) by simp
  have r3: "async_step eng (Resume 0) (suspend AwaitLast st3) = st3"
    unfolding resume_suspended [OF l3] by simp
  have "async_run eng (replicate 3 (Resume 0)) (suspend (AwaitCreateOffer a signal) st1) = st3"
    by (simp add: numeral_3_eq_3 r1 r2 r3)
  then show ?thesis
    using l3 ok3 v unfolding a_def st1_def p_def c0_def by metis
qed

lemma ice_run:
  assumes ok: "store_ok st" and s: "as_suspended st = []"
    and h: "fmlookup (as_peerConnections st) p = Some a"
  shows "as_suspended (async_run eng [Resume 0]
                 (suspend AwaitLast (on_connection a (addIceCandidate cand) st))) = []
            \<and> store_ok (async_run eng [Resume 0]
                 (suspend AwaitLast (on_connection a (addIceCandidate cand) st)))
            \<and> view (async_run eng [Resume 0]
                 (suspend AwaitLast (on_connection a (addIceCandidate cand) st)))
                = (view st)\<lparr>peerConnections :=
                     fmupd p \<lparr>pc = addIceCandidate cand (as_connections st ! a), peerId = p\<rparr>
                       (peerConnections (view st))\<rparr>"
proof -
  have l: "as_suspended (on_connection a (addIceCandidate cand) st) = []"
    using s by (simp add: on_connection_fields)
  show ?thesis
    using view_on_connection [OF ok h, of "addIceCandidate cand"] ok
    by (simp add: resume_suspended [OF l] l store_ok_on_connection)
qed

lemma async_arrive_ignored:
  assumes "\<not> accepted (view st) signal"
  shows "async_arrive signal st = st" "handleWebRTCSignal eng signal (view st) = view st"
  using assms
  by (auto simp: accepted_def async_arrive_def handleWebRTCSignal_def view_fields
        split: option.splits)

lemma invocation_run_to_end:
  assumes ok: "store_ok st" and s: "as_suspended st = []"
  shows "\<exists>n. as_suspended (async_run eng (Arrive signal # replicate n (Resume 0)) st) = []
            \<and> store_ok (async_run eng (Arrive signal # replicate n (Resume 0)) st)
            \<and> view (async_run eng (Arrive signal # replicate n (Resume 0)) st)
                = handleWebRTCSignal eng signal (view st)"
proof (cases "accepted (view st) signal")
  case False
  have "as_suspended (async_run eng (Arrive signal # replicate 0 (Resume 0)) st) = []
            \<and> store_ok (async_run eng (Arrive signal # replicate 0 (Resume 0)) st)
            \<and> view (async_run eng (Arrive signal # replicate 0 (Resume 0)) st)
                = handleWebRTCSignal eng signal (view st)"
    using async_arrive_ignored [OF False] ok s by (simp add: async_step_def)
  then show ?thesis by blast
next
  case True
  then obtain sent where ch: "as_streamChannel st = Some sent"
    by (auto simp: accepted_def view_fields)
  have g: "sig_from signal \<noteq> as_myEndpointId st"
      "\<not> (case sig_to signal of Some t \<Rightarrow> t \<noteq> [] \<and> t \<noteq> as_myEndpointId st | None \<Rightarrow> False)"
    using True by (auto simp: accepted_def view_fields split: option.splits)
  have hw: "handleWebRTCSignal eng signal (view st) =
             (case sig_type signal of
                WebrtcRequestOffer \<Rightarrow> on_request_offer eng signal sent (view st)
              | WebrtcOffer \<Rightarrow> on_offer eng signal sent (view st)
              | WebrtcAnswer \<Rightarrow> on_answer signal (view st)
              | WebrtcIceCandidate \<Rightarrow> on_ice_candidate signal (view st))"
    using g ch by (auto simp: handleWebRTCSignal_def view_fields split: option.splits)
  show ?thesis
  proof (cases "sig_type signal")
    case WebrtcOffer
    have ar: "async_arrive signal st
               = suspend (AwaitSetRemoteDescription Offer (length (as_connections st)) signal)
                    (new_connection (sig_from signal) createViewerPeerConnection st)"
      using g ch WebrtcOffer by (simp add: async_arrive_def)
    show ?thesis
      using offer_run [OF ok s ch, of eng signal] hw WebrtcOffer
      by (simp add: async_step_def ar)
  next
    case WebrtcAnswer
    show ?thesis
    proof (cases "fmlookup (as_peerConnections st) (sig_from signal)")
      case None
      have ar: "async_arrive signal st = st"
        using g ch WebrtcAnswer None by (simp add: async_arrive_def)
      have "on_answer signal (view st) = view st"
        using None by (simp add: on_answer_def view_def)
      then have "as_suspended (async_run eng (Arrive signal # replicate 0 (Resume 0)) st) = []
            \<and> store_ok (async_run eng (Arrive signal # replicate 0 (Resume 0)) st)
            \<and> view (async_run eng (Arrive signal # replicate 0 (Resume 0)) st)
                = handleWebRTCSignal eng signal (view st)"
        using hw WebrtcAnswer ok s by (simp add: async_step_def ar)
      then show ?thesis by blast
    next
      case (Some a)
      have ar: "async_arrive signal st = suspend (AwaitSetRemoteDescription Answer a signal) st"
        using g ch WebrtcAnswer Some by (simp add: async_arrive_def)
      show ?thesis
        using answer_run [OF ok s Some, of eng] hw WebrtcAnswer
        by (simp add: async_step_def ar)
    qed
  next
    case WebrtcRequestOffer
    show ?thesis
    proof (cases "\<exists>tracks. as_mediaStream st = Some tracks \<and> length (filter (\<lambda>t. t = Live) tracks) \<noteq> 0")
      case False
      have ar: "async_arrive signal st = st"
        using g ch WebrtcRequestOffer False
        by (auto simp: async_arrive_def Let_def split: option.splits)
      have "on_request_offer eng signal sent (view st) = view st"
        using False by (auto simp: on_request_offer_def view_fields Let_def split: option.splits)
      then have "as_suspended (async_run eng (Arrive signal # replicate 0 (Resume 0)) st) = []
            \<and> store_ok (async_run eng (Arrive signal # replicate 0 (Resume 0)) st)
            \<and> view (async_run eng (Arrive signal # replicate 0 (Resume 0)) st)
                = handleWebRTCSignal eng signal (view st)"
        using hw WebrtcRequestOffer ok s by (simp add: async_step_def ar)
      then show ?thesis by blast
    next
      case True
      then obtain tracks where m: "as_mediaStream st = Some tracks"
          and live: "length (filter (\<lambda>t. t = Live) tracks) \<noteq> 0" by blast
      have ar: "async_arrive signal st
                  = suspend (AwaitCreateOffer (length (as_connections st)) signal)
                      (new_connection (sig_from signal) (createBroadcasterPeerConnection tracks) st)"
        using g ch WebrtcRequestOffer m live by (simp add: async_arrive_def Let_def)
      have "as_suspended (async_run eng (Arrive signal # replicate 3 (Resume 0)) st) = []
            \<and> store_ok (async_run eng (Arrive signal # replicate 3 (Resume 0)) st)
            \<and> view (async_run eng (Arrive signal # replicate 3 (Resume 0)) st)
                = handleWebRTCSignal eng signal (view st)"
        using request_offer_run [OF ok s ch m live, of eng signal] hw WebrtcRequestOffer
        by (simp add: async_step_def ar)
      then show ?thesis by blast
    qed
  next
    case WebrtcIceCandidate
    show ?thesis
    proof (cases "sig_candidate signal")
      case None
      have ar: "async_arrive signal st = st"
        using g ch WebrtcIceCandidate None by (simp add: async_arrive_def)
      have "on_ice_candidate signal (view st) = view st"
        using None by (simp add: on_ice_candidate_def)
      then have "as_suspended (async_run eng (Arrive signal # replicate 0 (Resume 0)) st) = []
            \<and> store_ok (async_run eng (Arrive signal # replicate 0 (Resume 0)) st)
            \<and> view (async_run eng (Arrive signal # replicate 0 (Resume 0)) st)
                = handleWebRTCSignal eng signal (view st)"
        using hw WebrtcIceCandidate ok s by (simp add: async_step_def ar)
      then show ?thesis by blast
    next
      case (Some cand)
      show ?thesis
      proof (cases "\<exists>a. fmlookup (as_peerConnections st) (sig_from signal) = Some a
                        \<and> pc_remoteDescription (as_connections st ! a) \<noteq> None")
        case True
        then obtain a where h: "fmlookup (as_peerConnections st) (sig_from signal) = Some a"
            and r: "pc_remoteDescription (as_connections st ! a) \<noteq> None" by blast
        have ar: "async_arrive signal st
                    = suspend AwaitLast (on_connection a (addIceCandidate cand) st)"
          using g ch WebrtcIceCandidate Some h r by (simp add: async_arrive_def)
        have oi: "on_ice_candidate signal (view st)
                    = (view st)\<lparr>peerConnections :=
                        fmupd (sig_from signal)
                          \<lparr>pc = addIceCandidate cand (as_connections st ! a), peerId = sig_from signal\<rparr>
                          (peerConnections (view st))\<rparr>"
          using Some h r by (simp add: on_ice_candidate_def view_def)
        have "as_suspended (async_run eng (Arrive signal # replicate 1 (Resume 0)) st) = []
            \<and> store_ok (async_run eng (Arrive signal # replicate 1 (Resume 0)) st)
            \<and> view (async_run eng (Arrive signal # replicate 1 (Resume 0)) st)
                = handleWebRTCSignal eng signal (view st)"
          using ice_run [OF ok s h, of eng cand] hw WebrtcIceCandidate oi
          by (simp add: async_step_def ar)
        then show ?thesis by blast
      next
        case False
        have ar: "async_arrive signal st = async_queue (sig_from signal) cand st"
          using g ch WebrtcIceCandidate Some False
          by (auto simp: async_arrive_def split: option.splits)
        have oi: "on_ice_candidate signal (view st) = queue_candidate (sig_from signal) cand (view st)"
          using Some False by (auto simp: on_ice_candidate_def view_def split: option.splits)
        have qs: "as_suspended (async_queue (sig_from signal) cand st) = []"
          using s by (simp add: async_queue_def Let_def)
        have "as_suspended (async_run eng (Arrive signal # replicate 0 (Resume 0)) st) = []
            \<and> store_ok (async_run eng (Arrive signal # replicate 0 (Resume 0)) st)
            \<and> view (async_run eng (Arrive signal # replicate 0 (Resume 0)) st)
                = handleWebRTCSignal eng signal (view st)"
          using hw WebrtcIceCandidate oi qs store_ok_async_queue [OF ok, of "sig_from signal" cand]
            view_async_queue [OF ok, of "sig_from signal" cand]
          by (simp add: async_step_def ar)
        then show ?thesis by blast
      qed
    qed
  qed
qed

text \<open>
  A list of signals, each invocation resumed to its end before the next signal arrives, is
  \<open>receive_signals\<close>.
\<close>

lemma signals_run_to_end:
  assumes "store_ok st" "as_suspended st = []"
  shows "\<exists>ns. length ns = length sigs
            \<and> as_suspended (async_run eng (sequential (zip sigs ns)) st) = []
            \<and> store_ok (async_run eng (sequential (zip sigs ns)) st)
            \<and> view (async_run eng (sequential (zip sigs ns)) st) = receive_signals eng sigs (view st)"
  using assms
proof (induction sigs arbitrary: st)
  case Nil
  then show ?case by simp
next
  case (Cons signal sigs)
  obtain n where n: "as_suspended (async_run eng (Arrive signal # replicate n (Resume 0)) st) = []"
      "store_ok (async_run eng (Arrive signal # replicate n (Resume 0)) st)"
      "view (async_run eng (Arrive signal # replicate n (Resume 0)) st)
         = handleWebRTCSignal eng signal (view st)"
    using invocation_run_to_end [OF Cons.prems, of eng signal] by blast
  let ?st = "async_run eng (Arrive signal # replicate n (Resume 0)) st"
  obtain ns where ns: "length ns = length sigs"
      "as_suspended (async_run eng (sequential (zip sigs ns)) ?st) = []"
      "store_ok (async_run eng (sequential (zip sigs ns)) ?st)"
      "view (async_run eng (sequential (zip sigs ns)) ?st) = receive_signals eng sigs (view ?st)"
    using Cons.IH [OF n(2) n(1)] by blast
  have r: "async_run eng (sequential (zip (signal # sigs) (n # ns))) st
             = async_run eng (sequential (zip sigs ns)) ?st"
    using async_run_append [of eng "Arrive signal # replicate n (Resume 0)" "sequential (zip sigs ns)" st]
    by simp
  have "length (n # ns) = length (signal # sigs)
            \<and> as_suspended (async_run eng (sequential (zip (signal # sigs) (n # ns))) st) = []
            \<and> store_ok (async_run eng (sequential (zip (signal # sigs) (n # ns))) st)
            \<and> view (async_run eng (sequential (zip (signal # sigs) (n # ns))) st)
                = receive_signals eng (signal # sigs) (view st)"
    unfolding r using ns n(3) by simp
  then show ?case by blast
qed

lemma example_async_session_view:
  "store_ok example_async_session \<and> as_suspended example_async_session = []
   \<and> view example_async_session = example_session"
proof -
  have "fmmap_keys (\<lambda>p a. \<lparr>pc = [] ! a, peerId = p\<rparr>) fmempty = fmempty"
    by (rule fmap_ext) simp
  then show ?thesis
    by (simp add: store_ok_def example_async_session_def view_def example_session_def)
qed

text \<open>
  C6 as stated fails, because the page starts the handler on each signal without waiting
  for the invocation before, and an invocation gives way at every \<open>await\<close>.

  First run: \<open>c1\<close> and \<open>c2\<close> are queued, an offer arrives, its remote description is
  set and \<open>c1\<close> is added; while that call is awaited \<open>c3\<close> arrives, finds the remote
  description set and is added at once; then the loop goes on with \<open>c2\<close>. The connection
  gets \<open>c1, c3, c2\<close>: not the order received.

  Second run: two offers arrive, then \<open>c1\<close>. The handle of the peer is the connection of
  the second offer, which has no remote description yet, so \<open>c1\<close> is queued. The first
  invocation goes on, gives \<open>c1\<close> to its own connection, which the page no longer holds,
  and deletes the queue. When the remote description of the second connection is set,
  nothing is queued: the connection the page holds for the peer never gets \<open>c1\<close>.

  In both runs every invocation has ended.
\<close>

lemmas async_defs =
  async_step_def async_arrive_def async_queue_def flush_next_def after_flush_def
  new_connection_def suspend_def on_connection_def
  channel_broadcastSignal_def async_handle_def example_async_session_def example_engine_def
  signal_from_def createViewerPeerConnection_def setRemoteDescription_def
  setLocalDescription_def addIceCandidate_def Let_def


text \<open>
  The signals of the first run, each invocation resumed to its end before the next signal
  arrives: the connection gets the candidates in the order received.
\<close>

lemma run_to_completion_example:
  "map_option pc_candidates
     (async_handle
        (async_run example_engine
           [Arrive (signal_from WebrtcIceCandidate ''p'' None (Some ''c1'')),
            Arrive (signal_from WebrtcIceCandidate ''p'' None (Some ''c2'')),
            Arrive (signal_from WebrtcOffer ''p'' (Some ''sdp'') None),
            Resume 0, Resume 0, Resume 0, Resume 0, Resume 0, Resume 0,
            Arrive (signal_from WebrtcIceCandidate ''p'' None (Some ''c3'')),
            Resume 0]
           example_async_session) ''p'')
     = Some [''c1'', ''c2'', ''c3'']"
  by (simp add: async_defs)

subsection \<open>Request for an offer\<close>

lemma live_filter: "filter (\<lambda>t. t = Live) tracks = [] \<longleftrightarrow> Live \<notin> set tracks"
  by (auto simp: filter_empty_conv)

lemma request_offer_no_live:
  assumes "\<not> has_live_track s"
  shows "on_request_offer eng signal sent s = s"
  using assms
  by (simp add: on_request_offer_def has_live_track_def Let_def live_filter split: option.splits)

lemma request_offer_live:
  assumes "has_live_track s"
  shows "on_request_offer eng signal sent s =
     s\<lparr>peerConnections :=
         fmupd (sig_from signal)
           \<lparr>pc = setLocalDescription
                   (Offer, Some (createOffer eng (createBroadcasterPeerConnection (the (mediaStream s)))))
                   (createBroadcasterPeerConnection (the (mediaStream s))),
            peerId = sig_from signal\<rparr>
           (peerConnections s),
       streamChannel := Some (sent @ [offer_signal eng signal s])\<rparr>"
proof -
  from assms obtain tracks where t: "mediaStream s = Some tracks" "Live \<in> set tracks"
    by (auto simp: has_live_track_def split: option.splits)
  then have "filter (\<lambda>t. t = Live) tracks \<noteq> []" by (simp add: live_filter)
  then show ?thesis using t
    by (simp add: on_request_offer_def Let_def offer_signal_def setLocalDescription_def)
qed

text \<open>
  C7. A \<open>webrtc-request-offer\<close> handled while the local media stream is absent or has no
  track in the \<open>live\<close> state leaves everything as it was: no peer connection is created
  and nothing is sent. The handler creates a connection or sends something only if a live
  track exists; and when one exists and the signal is accepted, it creates the connection
  for the requesting peer and sends it the offer.
\<close>

theorem request_offer_needs_live_track:
  assumes "sig_type signal = WebrtcRequestOffer"
  shows "(\<not> has_live_track s \<longrightarrow> handleWebRTCSignal eng signal s = s)
         \<and> (streamChannel (handleWebRTCSignal eng signal s) \<noteq> streamChannel s
              \<or> peerConnections (handleWebRTCSignal eng signal s) \<noteq> peerConnections s
             \<longrightarrow> has_live_track s)
         \<and> (has_live_track s \<and> accepted s signal \<longrightarrow>
              streamChannel (handleWebRTCSignal eng signal s)
                = Some (the (streamChannel s) @ [offer_signal eng signal s])
              \<and> fmlookup (peerConnections (handleWebRTCSignal eng signal s)) (sig_from signal) \<noteq> None)"
proof -
  have a: "\<not> has_live_track s \<Longrightarrow> handleWebRTCSignal eng signal s = s"
    using assms by (simp add: handleWebRTCSignal_def request_offer_no_live split: option.splits)
  have b: "has_live_track s \<Longrightarrow> accepted s signal \<Longrightarrow>
              streamChannel (handleWebRTCSignal eng signal s)
                = Some (the (streamChannel s) @ [offer_signal eng signal s])
              \<and> fmlookup (peerConnections (handleWebRTCSignal eng signal s)) (sig_from signal) \<noteq> None"
    using assms by (simp add: handle_accepted request_offer_live)
  show ?thesis
  proof (intro conjI impI)
    assume "\<not> has_live_track s"
    then show "handleWebRTCSignal eng signal s = s" by (rule a)
  next
    assume c: "streamChannel (handleWebRTCSignal eng signal s) \<noteq> streamChannel s
              \<or> peerConnections (handleWebRTCSignal eng signal s) \<noteq> peerConnections s"
    show "has_live_track s"
    proof (rule ccontr)
      assume "\<not> has_live_track s"
      then have "handleWebRTCSignal eng signal s = s" by (rule a)
      with c show False by simp
    qed
  next
    assume h: "has_live_track s \<and> accepted s signal"
    then show "streamChannel (handleWebRTCSignal eng signal s)
                = Some (the (streamChannel s) @ [offer_signal eng signal s])"
      using b by simp
    from h show "fmlookup (peerConnections (handleWebRTCSignal eng signal s)) (sig_from signal) \<noteq> None"
      using b by simp
  qed
qed

theorem request_offer_needs_live_track_witness:
  "sig_type (signal_from WebrtcRequestOffer ''p'' None None) = WebrtcRequestOffer
   \<and> \<not> has_live_track (example_session\<lparr>mediaStream := Some [Ended, Ended]\<rparr>)
   \<and> handleWebRTCSignal example_engine (signal_from WebrtcRequestOffer ''p'' None None)
        (example_session\<lparr>mediaStream := Some [Ended, Ended]\<rparr>)
       = example_session\<lparr>mediaStream := Some [Ended, Ended]\<rparr>
   \<and> has_live_track (example_session\<lparr>mediaStream := Some [Ended, Live]\<rparr>)
   \<and> accepted (example_session\<lparr>mediaStream := Some [Ended, Live]\<rparr>)
        (signal_from WebrtcRequestOffer ''p'' None None)
   \<and> streamChannel (handleWebRTCSignal example_engine (signal_from WebrtcRequestOffer ''p'' None None)
        (example_session\<lparr>mediaStream := Some [Ended, Live]\<rparr>))
       = Some [\<lparr>sig_type = WebrtcOffer, sig_from = ''me'', sig_to = Some ''p'',
                sig_sdp = Some ''offer-sdp'', sig_candidate = None\<rparr>]"
proof -
  let ?r = "signal_from WebrtcRequestOffer ''p'' None None"
  have t: "sig_type ?r = WebrtcRequestOffer" by (simp add: signal_from_def)
  have a: "\<not> has_live_track (example_session\<lparr>mediaStream := Some [Ended, Ended]\<rparr>)"
    by (simp add: has_live_track_def)
  have b: "has_live_track (example_session\<lparr>mediaStream := Some [Ended, Live]\<rparr>)"
      "accepted (example_session\<lparr>mediaStream := Some [Ended, Live]\<rparr>) ?r"
    by (simp_all add: has_live_track_def accepted_def example_defs)
  have o: "the (streamChannel (example_session\<lparr>mediaStream := Some [Ended, Live]\<rparr>))
             @ [offer_signal example_engine ?r (example_session\<lparr>mediaStream := Some [Ended, Live]\<rparr>)]
           = [\<lparr>sig_type = WebrtcOffer, sig_from = ''me'', sig_to = Some ''p'',
                sig_sdp = Some ''offer-sdp'', sig_candidate = None\<rparr>]"
    by (simp add: offer_signal_def example_defs)
  show ?thesis
    using request_offer_needs_live_track [OF t, of "example_session\<lparr>mediaStream := Some [Ended, Ended]\<rparr>" example_engine]
      request_offer_needs_live_track [OF t, of "example_session\<lparr>mediaStream := Some [Ended, Live]\<rparr>" example_engine]
      t a b
    by (simp only: o) simp
qed

section \<open>Properties of the file-chunk exchange\<close>

text \<open>
  C8. A message whose \<open>from\<close> is the local endpoint identity is ignored by each of the
  three handlers: the signaling handler returns the state it was given, the file-chunk
  broadcaster's handler makes no call and completes, and the file-chunk viewer's handler
  returns the state it was given and makes no call.
\<close>

theorem self_messages_ignored:
  "(sig_from signal = ls_myEndpointId s \<longrightarrow> handleWebRTCSignal eng signal s = s)
   \<and> (vm_from message = bc_myEndpointId b \<longrightarrow>
        broadcaster_handleVideoMessage b message = ([], None))
   \<and> (vm_from message = vw_myEndpointId v \<longrightarrow> viewer_handleVideoMessage v message = (v, []))"
  by (simp add: handleWebRTCSignal_def broadcaster_handleVideoMessage_def
        viewer_handleVideoMessage_def)

theorem self_messages_ignored_witness:
  "sig_from (signal_from WebrtcOffer ''me'' (Some ''sdp'') None) = ls_myEndpointId example_session
   \<and> handleWebRTCSignal example_engine (signal_from WebrtcOffer ''me'' (Some ''sdp'') None) example_session
       = example_session
   \<and> vm_from ((chunk_message ''me'' 0 [])\<lparr>vm_type := VideoRequestChunk\<rparr>)
       = bc_myEndpointId example_broadcaster
   \<and> broadcaster_handleVideoMessage example_broadcaster
        ((chunk_message ''me'' 0 [])\<lparr>vm_type := VideoRequestChunk\<rparr>) = ([], None)
   \<and> vm_from (chunk_message ''viewer'' 0 [1]) = vw_myEndpointId example_viewer
   \<and> viewer_handleVideoMessage example_viewer (chunk_message ''viewer'' 0 [1]) = (example_viewer, [])"
proof -
  have h: "sig_from (signal_from WebrtcOffer ''me'' (Some ''sdp'') None) = ls_myEndpointId example_session"
      "vm_from ((chunk_message ''me'' 0 [])\<lparr>vm_type := VideoRequestChunk\<rparr>)
         = bc_myEndpointId example_broadcaster"
      "vm_from (chunk_message ''viewer'' 0 [1]) = vw_myEndpointId example_viewer"
    by (simp_all add: example_defs chunk_message_def example_broadcaster_def prepare_def
          unprepared_broadcaster_def new_VideoFileBroadcaster_def example_viewer_def Let_def)
  have s: "handleWebRTCSignal example_engine (signal_from WebrtcOffer ''me'' (Some ''sdp'') None)
             example_session = example_session"
    and b: "broadcaster_handleVideoMessage example_broadcaster
              ((chunk_message ''me'' 0 [])\<lparr>vm_type := VideoRequestChunk\<rparr>) = ([], None)"
    using self_messages_ignored [of "signal_from WebrtcOffer ''me'' (Some ''sdp'') None"
        example_session example_engine
        "(chunk_message ''me'' 0 [])\<lparr>vm_type := VideoRequestChunk\<rparr>"
        example_broadcaster example_viewer] h(1,2)
    by blast+
  have v: "viewer_handleVideoMessage example_viewer (chunk_message ''viewer'' 0 [1])
             = (example_viewer, [])"
    using self_messages_ignored [of "signal_from WebrtcOffer ''me'' (Some ''sdp'') None"
        example_session example_engine "chunk_message ''viewer'' 0 [1]"
        example_broadcaster example_viewer] h(3)
    by blast
  from h s b v show ?thesis by blast
qed

text \<open>
  C9 (as amended). \<open>handleChunkRequest(peerId, index)\<close> with an integer index: the
  observer callback, if set, is called with the request; if \<open>0 \<le> index < chunks.length\<close>
  the chunk of that index is broadcast again, in a \<open>video-chunk\<close> message from the local
  identity that carries the index and the bytes of the chunk, tagged with the index;
  otherwise nothing is sent. In both cases the call completes without an exception.
  \<open>chunks.length\<close> is the number of chunks the broadcaster holds: none before
  \<open>prepare\<close> has run, and \<open>totalChunks\<close> from then on.
\<close>

theorem handleChunkRequest_in_range:
  "broadcaster_handleChunkRequest b peer (of_int index) =
     ((if bc_onPeerRequest b then [OnPeerRequest peer (of_int index)] else [])
      @ (if 0 \<le> index \<and> index < int (length (bc_chunks b))
         then [ChannelBroadcastChunk
                 \<lparr>vm_type = VideoChunk, vm_from = bc_myEndpointId b,
                  vm_fileSize = None, vm_fileName = None, vm_mimeType = None,
                  vm_totalChunks = None, vm_duration = None,
                  vm_chunkIndex = Some index, vm_chunkData = Some (bc_chunks b ! nat index),
                  vm_availableChunks = None\<rparr>
                 index]
         else []),
      None)
   \<and> md_totalChunks (bc_metadata (prepare b)) = int (length (bc_chunks (prepare b)))"
proof -
  have i: "is_integer (of_int index)" by (simp add: is_integer_def)
  have r: "((0::rat) \<le> of_int index \<and> (of_int index :: rat) < of_nat (length (bc_chunks b)))
             = (0 \<le> index \<and> index < int (length (bc_chunks b)))"
    by (metis of_int_0_le_iff of_int_less_iff of_int_of_nat_eq)
  have "broadcaster_handleChunkRequest b peer (of_int index) =
     ((if bc_onPeerRequest b then [OnPeerRequest peer (of_int index)] else [])
      @ (if 0 \<le> index \<and> index < int (length (bc_chunks b))
         then [ChannelBroadcastChunk
                 (chunk_message (bc_myEndpointId b) index (bc_chunks b ! nat index)) index]
         else []),
      None)"
    unfolding broadcaster_handleChunkRequest_def broadcaster_broadcastChunk_def r
    using i by (simp add: Let_def not_le)
  then show ?thesis
    by (simp add: chunk_message_def prepare_def Let_def)
qed

lemma example_broadcaster_eval:
  "bc_chunks example_broadcaster = [[1, 2, 3]] \<and> bc_myEndpointId example_broadcaster = ''me''
   \<and> bc_onPeerRequest example_broadcaster \<and> md_totalChunks (bc_metadata example_broadcaster) = 1"
  by (simp add: example_broadcaster_def unprepared_broadcaster_def prepare_def
        new_VideoFileBroadcaster_def Let_def split_chunks.simps slice_def VIDEO_CHUNK_SIZE_def)

theorem handleChunkRequest_in_range_witness:
  "broadcaster_handleChunkRequest example_broadcaster ''peer'' 0
       = ([OnPeerRequest ''peer'' 0,
           ChannelBroadcastChunk
             \<lparr>vm_type = VideoChunk, vm_from = ''me'',
              vm_fileSize = None, vm_fileName = None, vm_mimeType = None,
              vm_totalChunks = None, vm_duration = None,
              vm_chunkIndex = Some 0, vm_chunkData = Some [1, 2, 3],
              vm_availableChunks = None\<rparr> 0], None)
   \<and> broadcaster_handleChunkRequest example_broadcaster ''peer'' 1
       = ([OnPeerRequest ''peer'' 1], None)
   \<and> broadcaster_handleChunkRequest example_broadcaster ''peer'' (- 1)
       = ([OnPeerRequest ''peer'' (- 1)], None)
   \<and> md_totalChunks (bc_metadata example_broadcaster)
       = int (length (bc_chunks example_broadcaster))"
  using handleChunkRequest_in_range [of example_broadcaster "''peer''" 0]
    handleChunkRequest_in_range [of example_broadcaster "''peer''" 1]
    handleChunkRequest_in_range [of example_broadcaster "''peer''" "- 1"]
  by (simp add: example_broadcaster_eval)

text \<open>
  C9 as stated fails: on a broadcaster not yet prepared, which the page already hands
  events to, the metadata says \<open>totalChunks = 1\<close> and no chunk is held; a request for
  index 0, inside \<open>0 \<le> index < totalChunks\<close>, is reported to the observer and nothing is
  broadcast.
\<close>

theorem handleChunkRequest_counterexample:
  "md_totalChunks (bc_metadata unprepared_broadcaster) = 1
   \<and> bc_chunks unprepared_broadcaster = []
   \<and> broadcaster_handleChunkRequest unprepared_broadcaster ''peer'' 0
       = ([OnPeerRequest ''peer'' 0], None)"
  by (simp add: unprepared_broadcaster_def new_VideoFileBroadcaster_def ceil_div_def
        VIDEO_CHUNK_SIZE_def broadcaster_handleChunkRequest_def)

text \<open>
  An index that is not an integer is outside the amended claim: inside the range it passes
  both comparisons, no chunk is found under it, and the call ends with a \<open>TypeError\<close>
  after the observer has been called.
\<close>

lemma fractional_index_throws:
  "broadcaster_handleChunkRequest example_broadcaster ''peer'' (1 / 2)
     = ([OnPeerRequest ''peer'' (1 / 2)], Some TypeError)"
proof -
  have f: "\<lfloor>(1 / 2 :: rat)\<rfloor> = 0" by (simp add: floor_eq_iff)
  have n: "\<not> is_integer (1 / 2)" by (simp add: is_integer_def f)
  show ?thesis
    by (simp add: broadcaster_handleChunkRequest_def broadcaster_broadcastChunk_def
          example_broadcaster_eval n)
qed

lemma assembleAndPlay_keeps:
  "vw_chunks (fst (assembleAndPlay v n)) = vw_chunks v
   \<and> vw_receivedChunks (fst (assembleAndPlay v n)) = vw_receivedChunks v
   \<and> vw_metadata (fst (assembleAndPlay v n)) = vw_metadata v"
  by (simp add: assembleAndPlay_def Let_def split: option.splits)

lemma tryProgressivePlay_keeps:
  "vw_chunks (fst (tryProgressivePlay v)) = vw_chunks v
   \<and> vw_receivedChunks (fst (tryProgressivePlay v)) = vw_receivedChunks v
   \<and> vw_metadata (fst (tryProgressivePlay v)) = vw_metadata v"
  by (simp add: tryProgressivePlay_def Let_def assembleAndPlay_keeps split: option.splits)

lemma handleChunk_stores:
  assumes "vm_chunkIndex message = Some index" "vm_chunkData message = Some chunkData"
    and "index \<notin> set (vw_receivedChunks v)"
  shows "fmlookup (vw_chunks (fst (handleChunk v message))) index = Some chunkData
         \<and> vw_receivedChunks (fst (handleChunk v message)) = vw_receivedChunks v @ [index]"
proof -
  let ?v1 = "v\<lparr>vw_chunks := fmupd index chunkData (vw_chunks v),
                vw_receivedChunks := set_add index (vw_receivedChunks v),
                vw_pendingRequests := removeAll index (vw_pendingRequests v)\<rparr>"
  have "fst (handleChunk v message) = (case vw_metadata ?v1 of
            Some metadata \<Rightarrow> fst (tryProgressivePlay ?v1) | None \<Rightarrow> ?v1)"
    using assms
    by (simp add: handleChunk_def Let_def split: option.splits prod.splits)
  then show ?thesis
    using assms(3) tryProgressivePlay_keeps [of ?v1]
    by (simp add: set_add_def split: option.splits)
qed

lemma not_webm: "\<not> sublist ''webm'' ''video/mp4''"
  by (simp add: sublist_Cons_right)

lemma example_run:
  "viewer_receive [chunk_message ''peer'' 2 [1], chunk_message ''peer'' 3 [2]] example_viewer
     = example_viewer\<lparr>vw_chunks := fmupd 3 [2] (fmupd 2 [1] fmempty), vw_receivedChunks := [2, 3]\<rparr>"
  by (simp add: example_viewer_def chunk_message_def viewer_handleVideoMessage_def
        handleChunk_def set_add_def tryProgressivePlay_def Let_def count_sequential.simps
        not_webm announceChunks_def)

text \<open>
  C10. \<open>handleChunk\<close> stores and counts a chunk of any index it has not received yet,
  whatever the metadata's \<open>totalChunks\<close>; and there are a viewer and a sequence of chunk
  messages with indices outside \<open>0..totalChunks-1\<close> after which \<open>getProgress\<close> reports
  \<open>received = total\<close> and \<open>percent = 100\<close> while an index inside the range was never
  received.
\<close>

theorem progress_counts_out_of_range_chunks:
  assumes "vm_chunkIndex message = Some index" "vm_chunkData message = Some chunkData"
    and "index \<notin> set (vw_receivedChunks v)"
  shows "fmlookup (vw_chunks (fst (handleChunk v message))) index = Some chunkData
         \<and> vw_receivedChunks (fst (handleChunk v message)) = vw_receivedChunks v @ [index]
         \<and> (\<exists>v0 messages i.
               vw_receivedChunks v0 = [] \<and> list_all (out_of_range_chunk v0) messages
               \<and> received (getProgress (viewer_receive messages v0))
                   = nat (total (getProgress (viewer_receive messages v0)))
               \<and> percent (getProgress (viewer_receive messages v0)) = 100
               \<and> 0 \<le> i \<and> i < total (getProgress (viewer_receive messages v0))
               \<and> i \<notin> set (vw_receivedChunks (viewer_receive messages v0)))"
proof -
  let ?ms = "[chunk_message ''peer'' 2 [1], chunk_message ''peer'' 3 [2]]"
  have a: "list_all (out_of_range_chunk example_viewer) ?ms"
    by (simp add: out_of_range_chunk_def chunk_message_def example_viewer_def getProgress_def)
  have b: "getProgress (viewer_receive ?ms example_viewer) = \<lparr>received = 2, total = 2, percent = 100\<rparr>"
    unfolding example_run by (simp add: getProgress_def example_viewer_def)
  have c: "(0::int) \<notin> set (vw_receivedChunks (viewer_receive ?ms example_viewer))"
    unfolding example_run by simp
  have "vw_receivedChunks example_viewer = []
               \<and> list_all (out_of_range_chunk example_viewer) ?ms
               \<and> received (getProgress (viewer_receive ?ms example_viewer))
                   = nat (total (getProgress (viewer_receive ?ms example_viewer)))
               \<and> percent (getProgress (viewer_receive ?ms example_viewer)) = 100
               \<and> (0::int) \<le> 0 \<and> 0 < total (getProgress (viewer_receive ?ms example_viewer))
               \<and> 0 \<notin> set (vw_receivedChunks (viewer_receive ?ms example_viewer))"
    using a c unfolding b by (simp add: example_viewer_def)
  then have "\<exists>v0 messages i.
               vw_receivedChunks v0 = [] \<and> list_all (out_of_range_chunk v0) messages
               \<and> received (getProgress (viewer_receive messages v0))
                   = nat (total (getProgress (viewer_receive messages v0)))
               \<and> percent (getProgress (viewer_receive messages v0)) = 100
               \<and> 0 \<le> i \<and> i < total (getProgress (viewer_receive messages v0))
               \<and> i \<notin> set (vw_receivedChunks (viewer_receive messages v0))"
    by blast
  then show ?thesis using handleChunk_stores [OF assms] by simp
qed

theorem progress_counts_out_of_range_chunks_witness:
  "vm_chunkIndex (chunk_message ''peer'' 7 [1]) = Some 7
   \<and> vm_chunkData (chunk_message ''peer'' 7 [1]) = Some [1]
   \<and> 7 \<notin> set (vw_receivedChunks example_viewer)
   \<and> md_totalChunks (the (vw_metadata example_viewer)) = 2
   \<and> fmlookup (vw_chunks (fst (handleChunk example_viewer (chunk_message ''peer'' 7 [1])))) 7 = Some [1]
   \<and> vw_receivedChunks (fst (handleChunk example_viewer (chunk_message ''peer'' 7 [1]))) = [7]"
proof -
  have h: "vm_chunkIndex (chunk_message ''peer'' 7 [1]) = Some 7"
      "vm_chunkData (chunk_message ''peer'' 7 [1]) = Some [1]"
      "7 \<notin> set (vw_receivedChunks example_viewer)"
    by (simp_all add: chunk_message_def example_viewer_def)
  have e: "vw_receivedChunks example_viewer = []"
      "md_totalChunks (the (vw_metadata example_viewer)) = 2"
    by (simp_all add: example_viewer_def)
  show ?thesis
    using progress_counts_out_of_range_chunks [OF h] h e by simp
qed

end
